theory Spec2Isabelle
  imports Main "HOL-Library.Sublist"
begin

section \<open>Front end of bf2x: sanitize, fold_runs, desugar\<close>

text \<open>
  A token is the Python pair \<^verbatim>\<open>(op, n)\<close>: the operator is a Python string (one of the
  eight operator characters after \<^verbatim>\<open>fold_runs\<close>, or \<^verbatim>\<open>'CLR'\<close> after \<^verbatim>\<open>desugar\<close>), the
  count a Python integer. A Python string is modelled as a list of characters; the code
  only compares characters and tests them for membership in a fixed set.
\<close>

type_synonym token = "string \<times> int"

datatype py_error = IndexError | ValueError

text \<open>Python's \<^verbatim>\<open>xs[i]\<close> for an index \<^verbatim>\<open>i >= 0\<close>: IndexError out of range.\<close>

definition getitem :: "'a list \<Rightarrow> nat \<Rightarrow> py_error + 'a" where
  "getitem xs i = (if i < length xs then Inr (xs ! i) else Inl IndexError)"

text \<open>\<^verbatim>\<open>BF_OPS = set("><+-.,[]")\<close>\<close>

definition BF_OPS :: "char set" where
  "BF_OPS = set ''><+-.,[]''"

text \<open>\<^verbatim>\<open>def sanitize(src): return "".join(c for c in src if c in BF_OPS)\<close>\<close>

definition sanitize :: "string \<Rightarrow> string" where
  "sanitize src = filter (\<lambda>c. c \<in> BF_OPS) src"

text \<open>
  The inner loop of \<^verbatim>\<open>fold_runs\<close>: \<^verbatim>\<open>while j < n and ops[j] == c: j += 1\<close>.
  The result is the final value of \<^verbatim>\<open>j\<close>.
\<close>

function scan_run :: "string \<Rightarrow> char \<Rightarrow> nat \<Rightarrow> py_error + nat" where
  "scan_run ops c j =
     (if j < length ops then
        (case getitem ops j of
           Inl err \<Rightarrow> Inl err
         | Inr d \<Rightarrow> if d = c then scan_run ops c (j + 1) else Inr j)
      else Inr j)"
  by pat_completeness auto
termination
  by (relation "measure (\<lambda>(ops, c, j). length ops - j)") auto

declare scan_run.simps [simp del]

lemma scan_run_ge: "scan_run ops c j = Inr k \<Longrightarrow> j \<le> k"
proof (induction ops c j rule: scan_run.induct)
  case (1 ops c j)
  show ?case
  proof (cases "j < length ops \<and> ops ! j = c")
    case True
    with "1.prems" have "scan_run ops c (j + 1) = Inr k"
      by (subst (asm) scan_run.simps) (simp add: getitem_def)
    with True "1.IH" [of "ops ! j"] have "j + 1 \<le> k"
      by (simp add: getitem_def)
    then show ?thesis by simp
  next
    case False
    with "1.prems" show ?thesis
      by (subst (asm) scan_run.simps) (auto simp: getitem_def split: if_splits)
  qed
qed

text \<open>
  The outer loop of \<^verbatim>\<open>fold_runs\<close>, with the loop variables \<^verbatim>\<open>i\<close> and \<^verbatim>\<open>out\<close>:
  \<^verbatim>\<open>
  while i < n:
      c = ops[i]
      if c in "+-<>":
          j = i + 1
          while j < n and ops[j] == c: j += 1
          out.append((c, j - i)); i = j
      else:
          out.append((c, 1)); i += 1
  return out
  \<close>
\<close>

function fold_loop :: "string \<Rightarrow> nat \<Rightarrow> token list \<Rightarrow> py_error + token list" where
  "fold_loop ops i out =
     (if i < length ops then
        (case getitem ops i of
           Inl err \<Rightarrow> Inl err
         | Inr c \<Rightarrow>
             if c \<in> set ''+-<>'' then
               (case scan_run ops c (i + 1) of
                  Inl err \<Rightarrow> Inl err
                | Inr j \<Rightarrow> fold_loop ops j (out @ [([c], int j - int i)]))
             else fold_loop ops (i + 1) (out @ [([c], 1)]))
      else Inr out)"
  by pat_completeness auto
termination fold_loop
proof (relation "measure (\<lambda>(ops, i, out). length ops - i)", goal_cases)
  case 1
  show ?case by simp
next
  case (2 ops i out c j)
  from scan_run_ge [OF 2(4)] 2(1) show ?case by simp
next
  case (3 ops i out c)
  then show ?case by simp
qed

declare fold_loop.simps [simp del]

definition fold_runs :: "string \<Rightarrow> py_error + token list" where
  "fold_runs ops = fold_loop ops 0 []"

text \<open>
  The condition of \<^verbatim>\<open>desugar\<close>'s \<^verbatim>\<open>if\<close>, with Python's short-circuit \<^verbatim>\<open>and\<close>:
  \<^verbatim>\<open>i + 2 < len(tokens) and tokens[i] == ('[',1) and tokens[i+1] == ('-',1) and tokens[i+2] == (']',1)\<close>
\<close>

definition clear_idiom_at :: "token list \<Rightarrow> nat \<Rightarrow> py_error + bool" where
  "clear_idiom_at tokens i =
     (if i + 2 < length tokens then
        (case getitem tokens i of
           Inl err \<Rightarrow> Inl err
         | Inr a \<Rightarrow>
             if a = (''['', 1) then
               (case getitem tokens (i + 1) of
                  Inl err \<Rightarrow> Inl err
                | Inr b \<Rightarrow>
                    if b = (''-'', 1) then
                      (case getitem tokens (i + 2) of
                         Inl err \<Rightarrow> Inl err
                       | Inr c \<Rightarrow> Inr (c = ('']'', 1)))
                    else Inr False)
             else Inr False)
      else Inr False)"

text \<open>
  The loop of \<^verbatim>\<open>desugar\<close>, with the loop variables \<^verbatim>\<open>i\<close> and \<^verbatim>\<open>out\<close>:
  \<^verbatim>\<open>
  while i < len(tokens):
      if <clear idiom at i>:
          out.append(('CLR',1)); i += 3
      else:
          out.append(tokens[i]); i += 1
  return out
  \<close>
\<close>

function desugar_loop :: "token list \<Rightarrow> nat \<Rightarrow> token list \<Rightarrow> py_error + token list" where
  "desugar_loop tokens i out =
     (if i < length tokens then
        (case clear_idiom_at tokens i of
           Inl err \<Rightarrow> Inl err
         | Inr m \<Rightarrow>
             if m then desugar_loop tokens (i + 3) (out @ [(''CLR'', 1)])
             else
               (case getitem tokens i of
                  Inl err \<Rightarrow> Inl err
                | Inr t \<Rightarrow> desugar_loop tokens (i + 1) (out @ [t])))
      else Inr out)"
  by pat_completeness auto
termination
  by (relation "measure (\<lambda>(tokens, i, out). length tokens - i)") auto

declare desugar_loop.simps [simp del]

definition desugar :: "token list \<Rightarrow> py_error + token list" where
  "desugar tokens = desugar_loop tokens 0 []"


section \<open>The emitters\<close>

text \<open>
  The text Python's \<^verbatim>\<open>f"{n}"\<close> yields for an integer \<open>n\<close>: its decimal numeral, with a
  minus sign when negative. (\<^verbatim>\<open>f"{n}"\<close> yields it for an integer of at most 4300 digits
  and raises ValueError otherwise; the emitters with that error follow the emitters.)
\<close>

definition digit_char :: "nat \<Rightarrow> char" where
  "digit_char d = ''0123456789'' ! d"

function str_nat :: "nat \<Rightarrow> string" where
  "str_nat n = (if n < 10 then [digit_char n] else str_nat (n div 10) @ [digit_char (n mod 10)])"
  by pat_completeness auto
termination
  by (relation "measure id") auto

declare str_nat.simps [simp del]

definition str_int :: "int \<Rightarrow> string" where
  "str_int n = (if n < 0 then CHR ''-'' # str_nat (nat (- n)) else str_nat (nat n))"

text \<open>\<^verbatim>\<open>'    '*ind\<close>: the empty string when \<open>ind\<close> is not positive.\<close>

definition indent :: "int \<Rightarrow> string" where
  "indent ind = concat (replicate (nat ind) ''    '')"

text \<open>\<^verbatim>\<open>"\n".join(L)\<close>\<close>

fun join_lines :: "string list \<Rightarrow> string" where
  "join_lines [] = []"
| "join_lines [l] = l"
| "join_lines (l # m # ls) = l @ CHR 0x0A # join_lines (m # ls)"

text \<open>
  Every emitter keeps the list of lines \<open>L\<close> and the nesting depth \<open>ind\<close>;
  \<^verbatim>\<open>w(s)\<close> appends \<open>s\<close> to \<open>L\<close>, and \<^verbatim>\<open>e(s)\<close> appends \<open>s\<close> behind the indentation of
  the current depth. \<^verbatim>\<open>has_in = any(op == ',' for op, _ in tokens)\<close>.
\<close>

definition e :: "string list \<Rightarrow> int \<Rightarrow> string \<Rightarrow> string list" where
  "e L ind s = L @ [indent ind @ s]"

definition has_in :: "token list \<Rightarrow> bool" where
  "has_in tokens = list_ex (\<lambda>(op, n). op = '','') tokens"

subsection \<open>emit_python\<close>

definition python_head :: "string list" where
  "python_head =
     [''import sys'',
      ''tape = bytearray(300000)'', ''dp = 0'', ''out = []'',
      '''',
      ''def getchar():'',
      ''    b = sys.stdin.buffer.read(1)'',
      ''    return b[0] if b else 0'',
      '''']"

fun python_tok :: "string list \<times> int \<Rightarrow> token \<Rightarrow> string list \<times> int" where
  "python_tok (L, ind) (op, n) =
     (if op = ''>'' then (e L ind (''dp += '' @ str_int n), ind)
      else if op = ''<'' then (e L ind (''dp -= '' @ str_int n), ind)
      else if op = ''+'' then (e L ind (''tape[dp] = (tape[dp] + '' @ str_int n @ '') & 255''), ind)
      else if op = ''-'' then (e L ind (''tape[dp] = (tape[dp] - '' @ str_int n @ '') & 255''), ind)
      else if op = ''.'' then
        (if n = 1 then (e L ind ''out.append(tape[dp])'', ind)
         else (e L ind (''for _ in range('' @ str_int n @ ''): out.append(tape[dp])''), ind))
      else if op = '','' then
        (if n = 1 then (e L ind ''tape[dp] = getchar()'', ind)
         else (e L ind (''for _ in range('' @ str_int n @ ''): tape[dp] = getchar()''), ind))
      else if op = ''CLR'' then (e L ind ''tape[dp] = 0'', ind)
      else if op = ''['' then (e L ind ''while tape[dp] != 0:'', ind + 1)
      else if op = '']'' then (L, max 0 (ind - 1))
      else (L, ind))"

definition emit_python :: "token list \<Rightarrow> string" where
  "emit_python tokens =
     (case foldl python_tok (python_head, 0) tokens of
        (L, ind) \<Rightarrow> join_lines (L @ [''sys.stdout.buffer.write(bytes(out))'', '''']))"

subsection \<open>emit_go\<close>

definition go_head :: "bool \<Rightarrow> string list" where
  \<open>go_head inp =
     [''package main'', '''',
      ''import ('',
      ''    "bufio"''] @
     (if inp then [''    "io"''] else []) @
     [''    "os"'',
      '')'', '''',
      ''func main(){'',
      ''    tape := make([]byte, 300000)'',
      ''    dp := 0'',
      ''    out := bufio.NewWriter(os.Stdout)'',
      ''    defer out.Flush()''] @
     (if inp then
        [''    in := bufio.NewReader(os.Stdin)'',
         ''    getchar := func() byte {'',
         ''        b, err := in.ReadByte()'',
         ''        if err != nil { if err == io.EOF { return 0 }; return 0 }'',
         ''        return b'',
         ''    }'']
      else [])\<close>

fun go_tok :: "bool \<Rightarrow> string list \<times> int \<Rightarrow> token \<Rightarrow> string list \<times> int" where
  "go_tok inp (L, ind) (op, n) =
     (if op = ''>'' then (e L ind (''dp += '' @ str_int n), ind)
      else if op = ''<'' then (e L ind (''dp -= '' @ str_int n), ind)
      else if op = ''+'' then
        (e L ind (''tape[dp] = byte(int(tape[dp]+byte('' @ str_int n @ '')) & 255)''), ind)
      else if op = ''-'' then
        (e L ind (''tape[dp] = byte(int(tape[dp]-byte('' @ str_int n @ '')) & 255)''), ind)
      else if op = ''.'' then
        (if n = 1 then (e L ind ''out.WriteByte(tape[dp])'', ind)
         else (e L ind (''for i:=0; i<'' @ str_int n @ ''; i++ { out.WriteByte(tape[dp]) }''), ind))
      else if op = '','' \<and> inp then
        (if n = 1 then (e L ind ''tape[dp] = getchar()'', ind)
         else (e L ind (''for i:=0; i<'' @ str_int n @ ''; i++ { tape[dp] = getchar() }''), ind))
      else if op = ''CLR'' then (e L ind ''tape[dp] = 0'', ind)
      else if op = ''['' then (e L ind ''for tape[dp] != 0 {'', ind + 1)
      else if op = '']'' then (e L (max 1 (ind - 1)) ''}'', max 1 (ind - 1))
      else (L, ind))"

definition emit_go :: "token list \<Rightarrow> string" where
  "emit_go tokens =
     (case foldl (go_tok (has_in tokens)) (go_head (has_in tokens), 1) tokens of
        (L, ind) \<Rightarrow> join_lines (L @ [''}'', '''']))"

subsection \<open>emit_cpp\<close>

definition cpp_head :: "string list" where
  "cpp_head =
     [''#include <iostream>'',
      ''int main(){'',
      ''    static unsigned char tape[300000] = {0};'',
      ''    size_t dp = 0;'',
      ''    std::ios::sync_with_stdio(false); std::cin.tie(nullptr);'']"

fun cpp_tok :: "bool \<Rightarrow> string list \<times> int \<Rightarrow> token \<Rightarrow> string list \<times> int" where
  "cpp_tok inp (L, ind) (op, n) =
     (if op = ''>'' then (e L ind (''dp += '' @ str_int n @ '';''), ind)
      else if op = ''<'' then (e L ind (''dp -= '' @ str_int n @ '';''), ind)
      else if op = ''+'' then (e L ind (''tape[dp] = (tape[dp] + '' @ str_int n @ '') & 255;''), ind)
      else if op = ''-'' then (e L ind (''tape[dp] = (tape[dp] - '' @ str_int n @ '') & 255;''), ind)
      else if op = ''.'' then
        (if n = 1 then (e L ind ''std::cout.put((char)tape[dp]);'', ind)
         else (e L ind (''for(int i=0;i<'' @ str_int n @ '';++i) std::cout.put((char)tape[dp]);''), ind))
      else if op = '','' \<and> inp then
        (if n = 1 then
           (e L ind ''int c = std::cin.get(); tape[dp] = (c==EOF?0:(unsigned char)c);'', ind)
         else
           (e L ind (''for(int i=0;i<'' @ str_int n @
              '';++i){ int c=std::cin.get(); tape[dp]=(c==EOF?0:(unsigned char)c); }''), ind))
      else if op = ''CLR'' then (e L ind ''tape[dp] = 0;'', ind)
      else if op = ''['' then (e L ind ''while(tape[dp] != 0){'', ind + 1)
      else if op = '']'' then (e L (max 1 (ind - 1)) ''}'', max 1 (ind - 1))
      else (L, ind))"

definition emit_cpp :: "token list \<Rightarrow> string" where
  "emit_cpp tokens =
     (case foldl (cpp_tok (has_in tokens)) (cpp_head, 1) tokens of
        (L, ind) \<Rightarrow> join_lines (e L ind ''return 0;'' @ [''}'', '''']))"

subsection \<open>emit_csharp\<close>

definition csharp_head :: "bool \<Rightarrow> string list" where
  "csharp_head inp =
     [''using System;'',
      ''using System.IO;'',
      ''class Program { static void Main(){'',
      ''    byte[] tape = new byte[300000]; int dp = 0;''] @
     (if inp then [''    Stream input = Console.OpenStandardInput();''] else []) @
     [''    var stdout = Console.OpenStandardOutput();'']"

fun csharp_tok :: "bool \<Rightarrow> string list \<times> int \<Rightarrow> token \<Rightarrow> string list \<times> int" where
  "csharp_tok inp (L, ind) (op, n) =
     (if op = ''>'' then (e L ind (''dp += '' @ str_int n @ '';''), ind)
      else if op = ''<'' then (e L ind (''dp -= '' @ str_int n @ '';''), ind)
      else if op = ''+'' then
        (e L ind (''tape[dp] = (byte)((tape[dp] + '' @ str_int n @ '') & 255);''), ind)
      else if op = ''-'' then
        (e L ind (''tape[dp] = (byte)((tape[dp] - '' @ str_int n @ '') & 255);''), ind)
      else if op = ''.'' then
        (if n = 1 then (e L ind ''stdout.WriteByte(tape[dp]);'', ind)
         else (e L ind (''for (int i=0;i<'' @ str_int n @ '';i++) stdout.WriteByte(tape[dp]);''), ind))
      else if op = '','' \<and> inp then
        (if n = 1 then
           (e L ind ''int c = input.ReadByte(); tape[dp] = (byte)(c==-1?0:c);'', ind)
         else
           (e L ind (''for (int i=0;i<'' @ str_int n @
              '';i++) { int c = input.ReadByte(); tape[dp] = (byte)(c==-1?0:c); }''), ind))
      else if op = ''CLR'' then (e L ind ''tape[dp] = 0;'', ind)
      else if op = ''['' then (e L ind ''while (tape[dp] != 0) {'', ind + 1)
      else if op = '']'' then (e L (max 1 (ind - 1)) ''}'', max 1 (ind - 1))
      else (L, ind))"

definition emit_csharp :: "token list \<Rightarrow> string" where
  "emit_csharp tokens =
     (case foldl (csharp_tok (has_in tokens)) (csharp_head (has_in tokens), 1) tokens of
        (L, ind) \<Rightarrow> join_lines (L @ [''}}'', '''']))"

subsection \<open>emit_lua\<close>

definition lua_head :: "bool \<Rightarrow> string list" where
  "lua_head inp =
     [''local tape = {} for i=1,300000 do tape[i]=0 end'',
      ''local dp = 1'',
      (if inp then
         ''local function getchar() local c=io.read(1); if c==nil then return 0 else return string.byte(c) end end''
       else ''local function getchar() return 0 end'')]"

fun lua_tok :: "string list \<times> int \<Rightarrow> token \<Rightarrow> string list \<times> int" where
  "lua_tok (L, ind) (op, n) =
     (if op = ''>'' then (e L ind (''dp = dp + '' @ str_int n), ind)
      else if op = ''<'' then (e L ind (''dp = dp - '' @ str_int n), ind)
      else if op = ''+'' then (e L ind (''tape[dp] = (tape[dp] + '' @ str_int n @ '') % 256''), ind)
      else if op = ''-'' then (e L ind (''tape[dp] = (tape[dp] - '' @ str_int n @ '') % 256''), ind)
      else if op = ''.'' then
        (if n = 1 then (e L ind ''io.write(string.char(tape[dp]))'', ind)
         else (e L ind (''for i=1,'' @ str_int n @ '' do io.write(string.char(tape[dp])) end''), ind))
      else if op = '','' then
        (if n = 1 then (e L ind ''tape[dp] = getchar()'', ind)
         else (e L ind (''for i=1,'' @ str_int n @ '' do tape[dp] = getchar() end''), ind))
      else if op = ''CLR'' then (e L ind ''tape[dp] = 0'', ind)
      else if op = ''['' then (e L ind ''while tape[dp] ~= 0 do'', ind + 1)
      else if op = '']'' then (e L (max 0 (ind - 1)) ''end'', max 0 (ind - 1))
      else (L, ind))"

definition emit_lua :: "token list \<Rightarrow> string" where
  "emit_lua tokens =
     (case foldl lua_tok (lua_head (has_in tokens), 0) tokens of
        (L, ind) \<Rightarrow> join_lines (L @ ['''']))"

subsection \<open>emit_ruby\<close>

definition ruby_head :: "bool \<Rightarrow> string list" where
  "ruby_head inp =
     [''tape = Array.new(300000, 0)'', ''dp = 0'',
      (if inp then ''def getchar; c=$stdin.read(1); c ? c.ord : 0; end''
       else ''def getchar; 0; end'')]"

fun ruby_tok :: "string list \<times> int \<Rightarrow> token \<Rightarrow> string list \<times> int" where
  "ruby_tok (L, ind) (op, n) =
     (if op = ''>'' then (e L ind (''dp += '' @ str_int n), ind)
      else if op = ''<'' then (e L ind (''dp -= '' @ str_int n), ind)
      else if op = ''+'' then (e L ind (''tape[dp] = (tape[dp] + '' @ str_int n @ '') & 0xFF''), ind)
      else if op = ''-'' then (e L ind (''tape[dp] = (tape[dp] - '' @ str_int n @ '') & 0xFF''), ind)
      else if op = ''.'' then
        (if n = 1 then (e L ind ''STDOUT.write(tape[dp].chr)'', ind)
         else (e L ind (str_int n @ ''.times { STDOUT.write(tape[dp].chr) }''), ind))
      else if op = '','' then
        (if n = 1 then (e L ind ''tape[dp] = getchar'', ind)
         else (e L ind (str_int n @ ''.times { tape[dp] = getchar }''), ind))
      else if op = ''CLR'' then (e L ind ''tape[dp] = 0'', ind)
      else if op = ''['' then (e L ind ''while tape[dp] != 0'', ind + 1)
      else if op = '']'' then (e L (max 0 (ind - 1)) ''end'', max 0 (ind - 1))
      else (L, ind))"

definition emit_ruby :: "token list \<Rightarrow> string" where
  "emit_ruby tokens =
     (case foldl ruby_tok (ruby_head (has_in tokens), 0) tokens of
        (L, ind) \<Rightarrow> join_lines (L @ ['''']))"

subsection \<open>emit_rust\<close>

definition rust_head :: "bool \<Rightarrow> string list" where
  "rust_head inp =
     [''use std::io::{self, Read, Write};'',
      ''fn main(){'',
      ''    let mut tape = [0u8; 300000];'',
      ''    let mut dp: usize = 0;'',
      ''    let mut out = io::BufWriter::new(io::stdout());''] @
     (if inp then
        [''    let mut stdin = io::stdin();'',
         ''    let mut buf = [0u8; 1];'',
         ''    let mut getchar = || -> u8 { match stdin.read(&mut buf) { Ok(1) => buf[0], _ => 0 } };'']
      else [])"

fun rust_tok :: "bool \<Rightarrow> string list \<times> int \<Rightarrow> token \<Rightarrow> string list \<times> int" where
  "rust_tok inp (L, ind) (op, n) =
     (if op = ''>'' then (e L ind (''dp += '' @ str_int n @ '';''), ind)
      else if op = ''<'' then (e L ind (''dp -= '' @ str_int n @ '';''), ind)
      else if op = ''+'' then (e L ind (''tape[dp] = tape[dp].wrapping_add('' @ str_int n @ '');''), ind)
      else if op = ''-'' then (e L ind (''tape[dp] = tape[dp].wrapping_sub('' @ str_int n @ '');''), ind)
      else if op = ''.'' then
        (if n = 1 then (e L ind ''out.write_all(&[tape[dp]]).unwrap();'', ind)
         else (e L ind (''for _ in 0..'' @ str_int n @ '' { out.write_all(&[tape[dp]]).unwrap(); }''), ind))
      else if op = '','' \<and> inp then
        (if n = 1 then (e L ind ''tape[dp] = getchar();'', ind)
         else (e L ind (''for _ in 0..'' @ str_int n @ '' { tape[dp] = getchar(); }''), ind))
      else if op = ''CLR'' then (e L ind ''tape[dp] = 0;'', ind)
      else if op = ''['' then (e L ind ''while tape[dp] != 0 {'', ind + 1)
      else if op = '']'' then (e L (max 1 (ind - 1)) ''}'', max 1 (ind - 1))
      else (L, ind))"

definition emit_rust :: "token list \<Rightarrow> string" where
  "emit_rust tokens =
     (case foldl (rust_tok (has_in tokens)) (rust_head (has_in tokens), 1) tokens of
        (L, ind) \<Rightarrow> join_lines (e L ind ''out.flush().unwrap();'' @ [''}'', '''']))"

section \<open>The emitters as the interpreter runs them\<close>

text \<open>
  The definitions above give the text an emitter builds. The one operation of an emitter
  that can raise is \<^verbatim>\<open>f"{n}"\<close>: CPython converts an integer to decimal text only when it has
  at most \<^verbatim>\<open>sys.int_info.default_max_str_digits\<close> = 4300 digits (the sign is not counted)
  and raises ValueError otherwise; the code does not change that limit. \<open>fstr\<close> is
  \<^verbatim>\<open>f"{n}"\<close> with this error, \<open>with_fstr n k\<close> formats \<open>n\<close> and hands the numeral to the rest
  of the statement, and \<open>for_tokens\<close> is the loop \<^verbatim>\<open>for op, n in tokens\<close>, which an error
  leaves at once. Each emitter follows below once more, branch by branch, with every
  \<^verbatim>\<open>f"{n}"\<close> of its code going through \<open>with_fstr\<close>.
\<close>

definition int_max_str_digits :: nat where
  "int_max_str_digits = 4300"

definition renderable :: "int \<Rightarrow> bool" where
  "renderable n = (\<bar>n\<bar> < 10 ^ int_max_str_digits)"

definition fstr :: "int \<Rightarrow> py_error + string" where
  "fstr n = (if renderable n then Inr (str_int n) else Inl ValueError)"

definition with_fstr :: "int \<Rightarrow> (string \<Rightarrow> 'a) \<Rightarrow> py_error + 'a" where
  "with_fstr n k = (case fstr n of Inl err \<Rightarrow> Inl err | Inr d \<Rightarrow> Inr (k d))"

fun for_tokens :: "('s \<Rightarrow> token \<Rightarrow> py_error + 's) \<Rightarrow> 's \<Rightarrow> token list \<Rightarrow> py_error + 's" where
  "for_tokens f s [] = Inr s"
| "for_tokens f s (t # ts) =
     (case f s t of Inl err \<Rightarrow> Inl err | Inr s' \<Rightarrow> for_tokens f s' ts)"

subsection \<open>emit_python, with the error\<close>

fun python_tok_exn :: "string list \<times> int \<Rightarrow> token \<Rightarrow> py_error + string list \<times> int" where
  "python_tok_exn (L, ind) (op, n) =
     (if op = ''>'' then with_fstr n (\<lambda>d. (e L ind (''dp += '' @ d), ind))
      else if op = ''<'' then with_fstr n (\<lambda>d. (e L ind (''dp -= '' @ d), ind))
      else if op = ''+'' then with_fstr n (\<lambda>d. (e L ind (''tape[dp] = (tape[dp] + '' @ d @ '') & 255''), ind))
      else if op = ''-'' then with_fstr n (\<lambda>d. (e L ind (''tape[dp] = (tape[dp] - '' @ d @ '') & 255''), ind))
      else if op = ''.'' then
        (if n = 1 then Inr (e L ind ''out.append(tape[dp])'', ind)
         else with_fstr n (\<lambda>d. (e L ind (''for _ in range('' @ d @ ''): out.append(tape[dp])''), ind)))
      else if op = '','' then
        (if n = 1 then Inr (e L ind ''tape[dp] = getchar()'', ind)
         else with_fstr n (\<lambda>d. (e L ind (''for _ in range('' @ d @ ''): tape[dp] = getchar()''), ind)))
      else if op = ''CLR'' then Inr (e L ind ''tape[dp] = 0'', ind)
      else if op = ''['' then Inr (e L ind ''while tape[dp] != 0:'', ind + 1)
      else if op = '']'' then Inr (L, max 0 (ind - 1))
      else Inr (L, ind))"

definition emit_python_exn :: "token list \<Rightarrow> py_error + string" where
  "emit_python_exn tokens =
     (case for_tokens python_tok_exn (python_head, 0) tokens of
        Inl err \<Rightarrow> Inl err
      | Inr (L, ind) \<Rightarrow> Inr (join_lines (L @ [''sys.stdout.buffer.write(bytes(out))'', ''''])))"

subsection \<open>emit_go, with the error\<close>

fun go_tok_exn :: "bool \<Rightarrow> string list \<times> int \<Rightarrow> token \<Rightarrow> py_error + string list \<times> int" where
  "go_tok_exn inp (L, ind) (op, n) =
     (if op = ''>'' then with_fstr n (\<lambda>d. (e L ind (''dp += '' @ d), ind))
      else if op = ''<'' then with_fstr n (\<lambda>d. (e L ind (''dp -= '' @ d), ind))
      else if op = ''+'' then
        with_fstr n (\<lambda>d. (e L ind (''tape[dp] = byte(int(tape[dp]+byte('' @ d @ '')) & 255)''), ind))
      else if op = ''-'' then
        with_fstr n (\<lambda>d. (e L ind (''tape[dp] = byte(int(tape[dp]-byte('' @ d @ '')) & 255)''), ind))
      else if op = ''.'' then
        (if n = 1 then Inr (e L ind ''out.WriteByte(tape[dp])'', ind)
         else with_fstr n (\<lambda>d. (e L ind (''for i:=0; i<'' @ d @ ''; i++ { out.WriteByte(tape[dp]) }''), ind)))
      else if op = '','' \<and> inp then
        (if n = 1 then Inr (e L ind ''tape[dp] = getchar()'', ind)
         else with_fstr n (\<lambda>d. (e L ind (''for i:=0; i<'' @ d @ ''; i++ { tape[dp] = getchar() }''), ind)))
      else if op = ''CLR'' then Inr (e L ind ''tape[dp] = 0'', ind)
      else if op = ''['' then Inr (e L ind ''for tape[dp] != 0 {'', ind + 1)
      else if op = '']'' then Inr (e L (max 1 (ind - 1)) ''}'', max 1 (ind - 1))
      else Inr (L, ind))"

definition emit_go_exn :: "token list \<Rightarrow> py_error + string" where
  "emit_go_exn tokens =
     (case for_tokens (go_tok_exn (has_in tokens)) (go_head (has_in tokens), 1) tokens of
        Inl err \<Rightarrow> Inl err
      | Inr (L, ind) \<Rightarrow> Inr (join_lines (L @ [''}'', ''''])))"

subsection \<open>emit_cpp, with the error\<close>

fun cpp_tok_exn :: "bool \<Rightarrow> string list \<times> int \<Rightarrow> token \<Rightarrow> py_error + string list \<times> int" where
  "cpp_tok_exn inp (L, ind) (op, n) =
     (if op = ''>'' then with_fstr n (\<lambda>d. (e L ind (''dp += '' @ d @ '';''), ind))
      else if op = ''<'' then with_fstr n (\<lambda>d. (e L ind (''dp -= '' @ d @ '';''), ind))
      else if op = ''+'' then with_fstr n (\<lambda>d. (e L ind (''tape[dp] = (tape[dp] + '' @ d @ '') & 255;''), ind))
      else if op = ''-'' then with_fstr n (\<lambda>d. (e L ind (''tape[dp] = (tape[dp] - '' @ d @ '') & 255;''), ind))
      else if op = ''.'' then
        (if n = 1 then Inr (e L ind ''std::cout.put((char)tape[dp]);'', ind)
         else with_fstr n (\<lambda>d. (e L ind (''for(int i=0;i<'' @ d @ '';++i) std::cout.put((char)tape[dp]);''), ind)))
      else if op = '','' \<and> inp then
        (if n = 1 then
           Inr (e L ind ''int c = std::cin.get(); tape[dp] = (c==EOF?0:(unsigned char)c);'', ind)
         else
           with_fstr n (\<lambda>d. (e L ind (''for(int i=0;i<'' @ d @
              '';++i){ int c=std::cin.get(); tape[dp]=(c==EOF?0:(unsigned char)c); }''), ind)))
      else if op = ''CLR'' then Inr (e L ind ''tape[dp] = 0;'', ind)
      else if op = ''['' then Inr (e L ind ''while(tape[dp] != 0){'', ind + 1)
      else if op = '']'' then Inr (e L (max 1 (ind - 1)) ''}'', max 1 (ind - 1))
      else Inr (L, ind))"

definition emit_cpp_exn :: "token list \<Rightarrow> py_error + string" where
  "emit_cpp_exn tokens =
     (case for_tokens (cpp_tok_exn (has_in tokens)) (cpp_head, 1) tokens of
        Inl err \<Rightarrow> Inl err
      | Inr (L, ind) \<Rightarrow> Inr (join_lines (e L ind ''return 0;'' @ [''}'', ''''])))"

subsection \<open>emit_csharp, with the error\<close>

fun csharp_tok_exn :: "bool \<Rightarrow> string list \<times> int \<Rightarrow> token \<Rightarrow> py_error + string list \<times> int" where
  "csharp_tok_exn inp (L, ind) (op, n) =
     (if op = ''>'' then with_fstr n (\<lambda>d. (e L ind (''dp += '' @ d @ '';''), ind))
      else if op = ''<'' then with_fstr n (\<lambda>d. (e L ind (''dp -= '' @ d @ '';''), ind))
      else if op = ''+'' then
        with_fstr n (\<lambda>d. (e L ind (''tape[dp] = (byte)((tape[dp] + '' @ d @ '') & 255);''), ind))
      else if op = ''-'' then
        with_fstr n (\<lambda>d. (e L ind (''tape[dp] = (byte)((tape[dp] - '' @ d @ '') & 255);''), ind))
      else if op = ''.'' then
        (if n = 1 then Inr (e L ind ''stdout.WriteByte(tape[dp]);'', ind)
         else with_fstr n (\<lambda>d. (e L ind (''for (int i=0;i<'' @ d @ '';i++) stdout.WriteByte(tape[dp]);''), ind)))
      else if op = '','' \<and> inp then
        (if n = 1 then
           Inr (e L ind ''int c = input.ReadByte(); tape[dp] = (byte)(c==-1?0:c);'', ind)
         else
           with_fstr n (\<lambda>d. (e L ind (''for (int i=0;i<'' @ d @
              '';i++) { int c = input.ReadByte(); tape[dp] = (byte)(c==-1?0:c); }''), ind)))
      else if op = ''CLR'' then Inr (e L ind ''tape[dp] = 0;'', ind)
      else if op = ''['' then Inr (e L ind ''while (tape[dp] != 0) {'', ind + 1)
      else if op = '']'' then Inr (e L (max 1 (ind - 1)) ''}'', max 1 (ind - 1))
      else Inr (L, ind))"

definition emit_csharp_exn :: "token list \<Rightarrow> py_error + string" where
  "emit_csharp_exn tokens =
     (case for_tokens (csharp_tok_exn (has_in tokens)) (csharp_head (has_in tokens), 1) tokens of
        Inl err \<Rightarrow> Inl err
      | Inr (L, ind) \<Rightarrow> Inr (join_lines (L @ [''}}'', ''''])))"

subsection \<open>emit_lua, with the error\<close>

fun lua_tok_exn :: "string list \<times> int \<Rightarrow> token \<Rightarrow> py_error + string list \<times> int" where
  "lua_tok_exn (L, ind) (op, n) =
     (if op = ''>'' then with_fstr n (\<lambda>d. (e L ind (''dp = dp + '' @ d), ind))
      else if op = ''<'' then with_fstr n (\<lambda>d. (e L ind (''dp = dp - '' @ d), ind))
      else if op = ''+'' then with_fstr n (\<lambda>d. (e L ind (''tape[dp] = (tape[dp] + '' @ d @ '') % 256''), ind))
      else if op = ''-'' then with_fstr n (\<lambda>d. (e L ind (''tape[dp] = (tape[dp] - '' @ d @ '') % 256''), ind))
      else if op = ''.'' then
        (if n = 1 then Inr (e L ind ''io.write(string.char(tape[dp]))'', ind)
         else with_fstr n (\<lambda>d. (e L ind (''for i=1,'' @ d @ '' do io.write(string.char(tape[dp])) end''), ind)))
      else if op = '','' then
        (if n = 1 then Inr (e L ind ''tape[dp] = getchar()'', ind)
         else with_fstr n (\<lambda>d. (e L ind (''for i=1,'' @ d @ '' do tape[dp] = getchar() end''), ind)))
      else if op = ''CLR'' then Inr (e L ind ''tape[dp] = 0'', ind)
      else if op = ''['' then Inr (e L ind ''while tape[dp] ~= 0 do'', ind + 1)
      else if op = '']'' then Inr (e L (max 0 (ind - 1)) ''end'', max 0 (ind - 1))
      else Inr (L, ind))"

definition emit_lua_exn :: "token list \<Rightarrow> py_error + string" where
  "emit_lua_exn tokens =
     (case for_tokens lua_tok_exn (lua_head (has_in tokens), 0) tokens of
        Inl err \<Rightarrow> Inl err
      | Inr (L, ind) \<Rightarrow> Inr (join_lines (L @ [''''])))"

subsection \<open>emit_ruby, with the error\<close>

fun ruby_tok_exn :: "string list \<times> int \<Rightarrow> token \<Rightarrow> py_error + string list \<times> int" where
  "ruby_tok_exn (L, ind) (op, n) =
     (if op = ''>'' then with_fstr n (\<lambda>d. (e L ind (''dp += '' @ d), ind))
      else if op = ''<'' then with_fstr n (\<lambda>d. (e L ind (''dp -= '' @ d), ind))
      else if op = ''+'' then with_fstr n (\<lambda>d. (e L ind (''tape[dp] = (tape[dp] + '' @ d @ '') & 0xFF''), ind))
      else if op = ''-'' then with_fstr n (\<lambda>d. (e L ind (''tape[dp] = (tape[dp] - '' @ d @ '') & 0xFF''), ind))
      else if op = ''.'' then
        (if n = 1 then Inr (e L ind ''STDOUT.write(tape[dp].chr)'', ind)
         else with_fstr n (\<lambda>d. (e L ind (d @ ''.times { STDOUT.write(tape[dp].chr) }''), ind)))
      else if op = '','' then
        (if n = 1 then Inr (e L ind ''tape[dp] = getchar'', ind)
         else with_fstr n (\<lambda>d. (e L ind (d @ ''.times { tape[dp] = getchar }''), ind)))
      else if op = ''CLR'' then Inr (e L ind ''tape[dp] = 0'', ind)
      else if op = ''['' then Inr (e L ind ''while tape[dp] != 0'', ind + 1)
      else if op = '']'' then Inr (e L (max 0 (ind - 1)) ''end'', max 0 (ind - 1))
      else Inr (L, ind))"

definition emit_ruby_exn :: "token list \<Rightarrow> py_error + string" where
  "emit_ruby_exn tokens =
     (case for_tokens ruby_tok_exn (ruby_head (has_in tokens), 0) tokens of
        Inl err \<Rightarrow> Inl err
      | Inr (L, ind) \<Rightarrow> Inr (join_lines (L @ [''''])))"

subsection \<open>emit_rust, with the error\<close>

fun rust_tok_exn :: "bool \<Rightarrow> string list \<times> int \<Rightarrow> token \<Rightarrow> py_error + string list \<times> int" where
  "rust_tok_exn inp (L, ind) (op, n) =
     (if op = ''>'' then with_fstr n (\<lambda>d. (e L ind (''dp += '' @ d @ '';''), ind))
      else if op = ''<'' then with_fstr n (\<lambda>d. (e L ind (''dp -= '' @ d @ '';''), ind))
      else if op = ''+'' then with_fstr n (\<lambda>d. (e L ind (''tape[dp] = tape[dp].wrapping_add('' @ d @ '');''), ind))
      else if op = ''-'' then with_fstr n (\<lambda>d. (e L ind (''tape[dp] = tape[dp].wrapping_sub('' @ d @ '');''), ind))
      else if op = ''.'' then
        (if n = 1 then Inr (e L ind ''out.write_all(&[tape[dp]]).unwrap();'', ind)
         else with_fstr n (\<lambda>d. (e L ind (''for _ in 0..'' @ d @ '' { out.write_all(&[tape[dp]]).unwrap(); }''), ind)))
      else if op = '','' \<and> inp then
        (if n = 1 then Inr (e L ind ''tape[dp] = getchar();'', ind)
         else with_fstr n (\<lambda>d. (e L ind (''for _ in 0..'' @ d @ '' { tape[dp] = getchar(); }''), ind)))
      else if op = ''CLR'' then Inr (e L ind ''tape[dp] = 0;'', ind)
      else if op = ''['' then Inr (e L ind ''while tape[dp] != 0 {'', ind + 1)
      else if op = '']'' then Inr (e L (max 1 (ind - 1)) ''}'', max 1 (ind - 1))
      else Inr (L, ind))"

definition emit_rust_exn :: "token list \<Rightarrow> py_error + string" where
  "emit_rust_exn tokens =
     (case for_tokens (rust_tok_exn (has_in tokens)) (rust_head (has_in tokens), 1) tokens of
        Inl err \<Rightarrow> Inl err
      | Inr (L, ind) \<Rightarrow> Inr (join_lines (e L ind ''out.flush().unwrap();'' @ [''}'', ''''])))"

text \<open>A token whose count every emitter formats, with a count that does not render.\<close>

definition formats_wide_count :: "token \<Rightarrow> bool" where
  "formats_wide_count t = (fst t \<in> {''>'', ''<'', ''+'', ''-''} \<and> \<not> renderable (snd t))"

section \<open>The front end as the specification words it\<close>

text \<open>
  The Run-Length Folder as the specification describes it: a maximal run of one of the four
  operators \<^verbatim>\<open>+ - < >\<close> becomes one token whose count is the length of the run; every
  other character becomes a token of its own with count 1.
\<close>

function fold_runs_spec :: "string \<Rightarrow> token list" where
  "fold_runs_spec [] = []"
| "fold_runs_spec (c # cs) =
     (if c \<in> set ''+-<>''
      then ([c], 1 + int (length (takeWhile (\<lambda>d. d = c) cs))) # fold_runs_spec (dropWhile (\<lambda>d. d = c) cs)
      else ([c], 1) # fold_runs_spec cs)"
  by pat_completeness auto
termination
  by (relation "measure length") (auto simp: le_imp_less_Suc length_dropWhile_le)

text \<open>
  The Desugarer as the specification describes it: one left-to-right pass; where the next
  three tokens are exactly \<^verbatim>\<open>('[',1) ('-',1) (']',1)\<close> they are replaced by \<^verbatim>\<open>('CLR',1)\<close> and
  the pass goes on behind them, otherwise the current token is copied and the pass goes on
  with the next one. The tokens already written are never looked at again.
\<close>

fun desugar_spec :: "token list \<Rightarrow> token list" where
  "desugar_spec [] = []"
| "desugar_spec (t # ts) =
     (if t = (''['', 1) \<and> take 2 ts = [(''-'', 1), ('']'', 1)]
      then (''CLR'', 1) # desugar_spec (drop 2 ts)
      else t # desugar_spec ts)"

section \<open>The loops compute what the specification describes\<close>

lemma scan_run_eq:
  "j \<le> length ops \<Longrightarrow> scan_run ops c j = Inr (j + length (takeWhile (\<lambda>d. d = c) (drop j ops)))"
proof (induction ops c j rule: scan_run.induct)
  case (1 ops c j)
  show ?case
  proof (cases "j < length ops")
    case True
    then have d: "drop j ops = ops ! j # drop (Suc j) ops"
      by (simp add: Cons_nth_drop_Suc)
    show ?thesis
    proof (cases "ops ! j = c")
      case eq: True
      from True eq "1.IH" [of "ops ! j"] have "scan_run ops c (j + 1) = Inr (j + 1 + length (takeWhile (\<lambda>d. d = c) (drop (j + 1) ops)))"
        by (simp add: getitem_def)
      with True eq d show ?thesis
        by (subst scan_run.simps) (simp add: getitem_def)
    next
      case False
      with True d show ?thesis
        by (subst scan_run.simps) (simp add: getitem_def)
    qed
  next
    case False
    with "1.prems" show ?thesis
      by (subst scan_run.simps) simp
  qed
qed

lemma fold_loop_eq:
  "i \<le> length ops \<Longrightarrow> fold_loop ops i out = Inr (out @ fold_runs_spec (drop i ops))"
proof (induction ops i out rule: fold_loop.induct)
  case (1 ops i out)
  show ?case
  proof (cases "i < length ops")
    case True
    then have d: "drop i ops = ops ! i # drop (Suc i) ops"
      by (simp add: Cons_nth_drop_Suc)
    let ?c = "ops ! i"
    let ?k = "length (takeWhile (\<lambda>d. d = ?c) (drop (Suc i) ops))"
    show ?thesis
    proof (cases "?c \<in> set ''+-<>''")
      case run: True
      have s: "scan_run ops ?c (i + 1) = Inr (i + 1 + ?k)"
        using True scan_run_eq [of "i + 1" ops ?c] by simp
      have le: "i + 1 + ?k \<le> length ops"
        using True length_takeWhile_le [of "\<lambda>d. d = ?c" "drop (Suc i) ops"] by simp
      have "fold_loop ops (i + 1 + ?k) (out @ [([?c], int (i + 1 + ?k) - int i)])
            = Inr ((out @ [([?c], int (i + 1 + ?k) - int i)]) @ fold_runs_spec (drop (i + 1 + ?k) ops))"
        using "1.IH"(1) [of ?c "i + 1 + ?k"] True run s le by (simp add: getitem_def)
      moreover have "drop (i + 1 + ?k) ops = dropWhile (\<lambda>d. d = ?c) (drop (Suc i) ops)"
        by (simp add: dropWhile_eq_drop add.commute)
      ultimately show ?thesis
        using True run s d by (subst fold_loop.simps) (simp add: getitem_def)
    next
      case False
      with True d "1.IH"(2) [of ?c] show ?thesis
        by (subst fold_loop.simps) (simp add: getitem_def)
    qed
  next
    case False
    with "1.prems" show ?thesis
      by (subst fold_loop.simps) simp
  qed
qed

lemma fold_runs_eq: "fold_runs ops = Inr (fold_runs_spec ops)"
  by (simp add: fold_runs_def fold_loop_eq)

lemma take2_eq: "take 2 xs = [a, b] \<longleftrightarrow> 1 < length xs \<and> xs ! 0 = a \<and> xs ! 1 = b"
proof (cases xs)
  case Nil then show ?thesis by simp
next
  case (Cons x ys)
  then show ?thesis by (cases ys) (auto simp: numeral_2_eq_2)
qed

lemma clear_idiom_at_eq:
  "i < length tokens \<Longrightarrow>
   clear_idiom_at tokens i =
     Inr (tokens ! i = (''['', 1) \<and> take 2 (drop (Suc i) tokens) = [(''-'', 1), ('']'', 1)])"
  by (auto simp: clear_idiom_at_def getitem_def take2_eq)

lemma desugar_loop_eq:
  "i \<le> length tokens \<Longrightarrow> desugar_loop tokens i out = Inr (out @ desugar_spec (drop i tokens))"
proof (induction tokens i out rule: desugar_loop.induct)
  case (1 tokens i out)
  show ?case
  proof (cases "i < length tokens")
    case True
    then have d: "drop i tokens = tokens ! i # drop (Suc i) tokens"
      by (simp add: Cons_nth_drop_Suc)
    let ?m = "tokens ! i = (''['', 1) \<and> take 2 (drop (Suc i) tokens) = [(''-'', 1), ('']'', 1)]"
    note c = clear_idiom_at_eq [OF True]
    show ?thesis
    proof (cases ?m)
      case m: True
      then have "i + 3 \<le> length tokens" by (auto simp: take2_eq)
      with "1.IH"(1) [of ?m] True c m
      have "desugar_loop tokens (i + 3) (out @ [(''CLR'', 1)])
            = Inr ((out @ [(''CLR'', 1)]) @ desugar_spec (drop (i + 3) tokens))"
        by simp
      moreover have "drop (i + 3) tokens = drop 2 (drop (Suc i) tokens)"
        by (simp add: numeral_3_eq_3 numeral_2_eq_2)
      ultimately show ?thesis
        using True c m d by (subst desugar_loop.simps) simp
    next
      case False
      with "1.IH"(2) [of ?m "tokens ! i"] True c
      have "desugar_loop tokens (i + 1) (out @ [tokens ! i])
            = Inr ((out @ [tokens ! i]) @ desugar_spec (drop (i + 1) tokens))"
        by (simp add: getitem_def)
      with True c False d show ?thesis
        by (subst desugar_loop.simps) (simp add: getitem_def)
    qed
  next
    case False
    with "1.prems" show ?thesis
      by (subst desugar_loop.simps) simp
  qed
qed

lemma desugar_eq: "desugar tokens = Inr (desugar_spec tokens)"
  by (simp add: desugar_def desugar_loop_eq)

section \<open>Properties of the front end\<close>

text \<open>
  The length a token sequence stands for: the count of a move, increment or decrement
  token, and 1 for every other token.
\<close>

definition folded_length :: "token list \<Rightarrow> int" where
  "folded_length ts =
     sum_list (map (\<lambda>(op, n). if op \<in> {''>'', ''<'', ''+'', ''-''} then n else 1) ts)"

text \<open>
  The count invariant of the data model: the count is at least 1, and a loop-start,
  loop-end, output or input token has count exactly 1.
\<close>

definition well_counted :: "token \<Rightarrow> bool" where
  "well_counted t =
     (1 \<le> snd t \<and> (if fst t \<in> {''['', '']'', ''.'', '',''} then snd t = 1 else True))"

lemma desugar_spec_clear:
  "t = (''['', 1) \<and> take 2 ts = [(''-'', 1), ('']'', 1)] \<Longrightarrow>
   desugar_spec (t # ts) = (''CLR'', 1) # desugar_spec (drop 2 ts)"
  by simp

lemma desugar_spec_copy:
  "\<not> (t = (''['', 1) \<and> take 2 ts = [(''-'', 1), ('']'', 1)]) \<Longrightarrow>
   desugar_spec (t # ts) = t # desugar_spec ts"
  by auto

declare desugar_spec.simps(2) [simp del]

lemma fold_runs_spec_length: "folded_length (fold_runs_spec ops) = int (length ops)"
proof (induction ops rule: fold_runs_spec.induct)
  case 1
  show ?case by (simp add: folded_length_def)
next
  case (2 c cs)
  have split: "length (takeWhile (\<lambda>d. d = c) cs) + length (dropWhile (\<lambda>d. d = c) cs) = length cs"
    by (metis length_append takeWhile_dropWhile_id)
  show ?case
  proof (cases "c \<in> set ''+-<>''")
    case True
    then have "[c] \<in> {''>'', ''<'', ''+'', ''-''}" by auto
    with True 2(1) split show ?thesis
      by (simp add: folded_length_def del: insert_iff)
  next
    case False
    with 2(2) show ?thesis by (simp add: folded_length_def)
  qed
qed

lemma fold_runs_spec_counted: "list_all well_counted (fold_runs_spec ops)"
proof (induction ops rule: fold_runs_spec.induct)
  case 1
  show ?case by simp
next
  case (2 c cs)
  show ?case
  proof (cases "c \<in> set ''+-<>''")
    case True
    then have "[c] \<notin> {''['', '']'', ''.'', '',''}" by auto
    with True 2(1) show ?thesis
      by (simp add: well_counted_def del: insert_iff)
  next
    case False
    with 2(2) show ?thesis by (simp add: well_counted_def)
  qed
qed

lemma desugar_spec_counted:
  "list_all well_counted ts \<Longrightarrow> list_all well_counted (desugar_spec ts)"
proof (induction ts rule: desugar_spec.induct)
  case 1
  show ?case by simp
next
  case (2 t ts)
  show ?case
  proof (cases "t = (''['', 1) \<and> take 2 ts = [(''-'', 1), ('']'', 1)]")
    case True
    from "2.prems" have "list_all well_counted (drop 2 ts)"
      by (auto simp: list_all_iff dest: in_set_dropD)
    moreover have "well_counted (''CLR'', 1)" by (simp add: well_counted_def)
    ultimately show ?thesis
      using "2.IH"(1) [OF True] by (simp add: desugar_spec_clear [OF True])
  next
    case False
    from "2.prems" have "list_all well_counted ts" by simp
    with "2.prems" "2.IH"(2) [OF False] show ?thesis
      by (simp add: desugar_spec_copy [OF False])
  qed
qed

lemma desugar_spec_length: "length (desugar_spec ts) \<le> length ts"
proof (induction ts rule: desugar_spec.induct)
  case 1
  show ?case by simp
next
  case (2 t ts)
  show ?case
  proof (cases "t = (''['', 1) \<and> take 2 ts = [(''-'', 1), ('']'', 1)]")
    case True
    have "length (drop 2 ts) \<le> length ts" by simp
    with "2.IH"(1) [OF True] show ?thesis
      by (simp add: desugar_spec_clear [OF True])
  next
    case False
    with "2.IH"(2) [OF False] show ?thesis
      by (simp add: desugar_spec_copy [OF False])
  qed
qed

lemma desugar_spec_take2:
  assumes a: "take 2 (desugar_spec ts) = [(''-'', 1), ('']'', 1)]"
  shows "take 2 ts = [(''-'', 1), ('']'', 1)]"
proof (cases ts)
  case Nil
  with a show ?thesis by simp
next
  case (Cons t ts')
  with a have t: "t = (''-'', 1)" and b: "take 1 (desugar_spec ts') = [('']'', 1)]"
    by (auto simp: numeral_2_eq_2 desugar_spec.simps(2) split: if_splits)
  from b have "take 1 ts' = [('']'', 1)]"
    by (cases ts') (auto simp: desugar_spec.simps(2) split: if_splits)
  with t Cons show ?thesis by (cases ts') (auto simp: numeral_2_eq_2)
qed

lemma desugar_spec_idem: "desugar_spec (desugar_spec ts) = desugar_spec ts"
proof (induction ts rule: desugar_spec.induct)
  case 1
  show ?case by simp
next
  case (2 t ts)
  show ?case
  proof (cases "t = (''['', 1) \<and> take 2 ts = [(''-'', 1), ('']'', 1)]")
    case True
    have "desugar_spec ((''CLR'', 1) # desugar_spec (drop 2 ts))
          = (''CLR'', 1) # desugar_spec (desugar_spec (drop 2 ts))"
      by (rule desugar_spec_copy) simp
    with "2.IH"(1) [OF True] show ?thesis
      by (simp add: desugar_spec_clear [OF True])
  next
    case False
    then have n: "\<not> (t = (''['', 1) \<and> take 2 (desugar_spec ts) = [(''-'', 1), ('']'', 1)])"
      using desugar_spec_take2 by blast
    with "2.IH"(2) [OF False] show ?thesis
      by (simp add: desugar_spec_copy [OF False] desugar_spec_copy [OF n])
  qed
qed

lemma desugar_spec_no_idiom:
  "\<not> sublist [(''['', 1), (''-'', 1), ('']'', 1)] (desugar_spec ts)"
proof (induction ts rule: desugar_spec.induct)
  case 1
  show ?case by simp
next
  case (2 t ts)
  show ?case
  proof (cases "t = (''['', 1) \<and> take 2 ts = [(''-'', 1), ('']'', 1)]")
    case True
    from "2.IH"(1) [OF True]
    have "\<not> sublist [(''['', 1), (''-'', 1), ('']'', 1)] ((''CLR'', 1) # desugar_spec (drop 2 ts))"
      by (simp add: sublist_Cons_right)
    then show ?thesis
      unfolding desugar_spec_clear [OF True] .
  next
    case False
    have "\<not> prefix [(''['', 1), (''-'', 1), ('']'', 1)] (t # desugar_spec ts)"
    proof
      assume p: "prefix [(''['', 1), (''-'', 1), ('']'', 1)] (t # desugar_spec ts)"
      then have "t = (''['', 1)" and "prefix [(''-'', 1), ('']'', 1)] (desugar_spec ts)"
        by simp_all
      then have "take 2 (desugar_spec ts) = [(''-'', 1), ('']'', 1)]"
        by (auto simp: prefix_def)
      with desugar_spec_take2 \<open>t = (''['', 1)\<close> False show False by blast
    qed
    with "2.IH"(2) [OF False] show ?thesis
      by (simp add: desugar_spec_copy [OF False] sublist_Cons_right)
  qed
qed

lemma fold_runs_spec_single_char: "\<forall>t \<in> set (fold_runs_spec ops). length (fst t) = 1"
  by (induction ops rule: fold_runs_spec.induct) auto

lemma desugar_spec_set: "set (desugar_spec ts) \<subseteq> insert (''CLR'', 1) (set ts)"
proof (induction ts rule: desugar_spec.induct)
  case 1
  show ?case by simp
next
  case (2 t ts)
  show ?case
  proof (cases "t = (''['', 1) \<and> take 2 ts = [(''-'', 1), ('']'', 1)]")
    case True
    have "set (drop 2 ts) \<subseteq> set ts" by (rule set_drop_subset)
    with "2.IH"(1) [OF True] show ?thesis
      by (auto simp: desugar_spec_clear [OF True])
  next
    case False
    with "2.IH"(2) [OF False] show ?thesis
      by (auto simp: desugar_spec_copy [OF False])
  qed
qed

lemma desugar_spec_untouched:
  "\<not> sublist [(''['', 1), (''-'', 1), ('']'', 1)] ts \<Longrightarrow> desugar_spec ts = ts"
proof (induction ts)
  case Nil
  show ?case by simp
next
  case (Cons t ts)
  from Cons.prems have p: "\<not> prefix [(''['', 1), (''-'', 1), ('']'', 1)] (t # ts)"
    and s: "\<not> sublist [(''['', 1), (''-'', 1), ('']'', 1)] ts"
    by (simp_all add: sublist_Cons_right)
  have "\<not> (t = (''['', 1) \<and> take 2 ts = [(''-'', 1), ('']'', 1)])"
  proof
    assume a: "t = (''['', 1) \<and> take 2 ts = [(''-'', 1), ('']'', 1)]"
    then have "ts = [(''-'', 1), ('']'', 1)] @ drop 2 ts"
      by (metis append_take_drop_id)
    with a have "t # ts = [(''['', 1), (''-'', 1), ('']'', 1)] @ drop 2 ts" by simp
    then have "prefix [(''['', 1), (''-'', 1), ('']'', 1)] (t # ts)"
      unfolding prefix_def by blast
    with p show False ..
  qed
  from desugar_spec_copy [OF this] Cons.IH [OF s] show ?case by simp
qed

section \<open>The claims about the front end\<close>

text \<open>
  Claim C7. The Normalizer is idempotent: for every input string \<open>s\<close>, normalizing the
  normalized string returns it unchanged, \<open>sanitize (sanitize s) = sanitize s\<close>.
\<close>

theorem sanitize_idempotent: "sanitize (sanitize s) = sanitize s"
  by (simp add: sanitize_def)

text \<open>
  Claim C5. For every normalized operator string (every result of \<open>sanitize\<close>), the
  Run-Length Folder returns a token sequence, and the sum of the counts of its move,
  increment and decrement tokens plus the number of its other tokens is the length of the
  operator string.
\<close>

theorem fold_runs_conserves_length:
  "\<exists>ts. fold_runs (sanitize src) = Inr ts \<and> folded_length ts = int (length (sanitize src))"
  by (simp add: fold_runs_eq fold_runs_spec_length)

text \<open>
  Claim C6. Every token the Run-Length Folder produces has count at least 1, and its
  loop-start, loop-end, output and input tokens have count exactly 1; the Desugarer keeps
  both properties on every token sequence that has them; and after folding and desugaring
  every output, input and clear-cell token has count 1.
\<close>

theorem token_counts_invariant:
  "(\<exists>ts. fold_runs ops = Inr ts \<and> list_all well_counted ts) \<and>
   (list_all well_counted tokens \<longrightarrow>
      (\<exists>out. desugar tokens = Inr out \<and> list_all well_counted out)) \<and>
   (\<exists>ts out. fold_runs ops = Inr ts \<and> desugar ts = Inr out \<and> list_all well_counted out \<and>
      (\<forall>t \<in> set out. fst t \<in> {''.'', '','', ''CLR''} \<longrightarrow> snd t = 1))"
proof (intro conjI impI)
  show "\<exists>ts. fold_runs ops = Inr ts \<and> list_all well_counted ts"
    by (simp add: fold_runs_eq fold_runs_spec_counted)
next
  assume "list_all well_counted tokens"
  then show "\<exists>out. desugar tokens = Inr out \<and> list_all well_counted out"
    by (simp add: desugar_eq desugar_spec_counted)
next
  let ?out = "desugar_spec (fold_runs_spec ops)"
  have w: "list_all well_counted ?out"
    by (simp add: desugar_spec_counted fold_runs_spec_counted)
  have "snd t = 1" if t: "t \<in> set ?out" and k: "fst t \<in> {''.'', '','', ''CLR''}" for t
  proof (cases "t = (''CLR'', 1)")
    case True
    then show ?thesis by simp
  next
    case False
    with t desugar_spec_set [of "fold_runs_spec ops"] have m: "t \<in> set (fold_runs_spec ops)"
      by auto
    with fold_runs_spec_single_char have "length (fst t) = 1" by blast
    with k have "fst t \<in> {''['', '']'', ''.'', '',''}" by auto
    moreover from m fold_runs_spec_counted [of ops] have "well_counted t"
      by (simp add: list_all_iff)
    ultimately show ?thesis by (simp add: well_counted_def del: insert_iff)
  qed
  with w show "\<exists>ts out. fold_runs ops = Inr ts \<and> desugar ts = Inr out \<and>
      list_all well_counted out \<and> (\<forall>t \<in> set out. fst t \<in> {''.'', '','', ''CLR''} \<longrightarrow> snd t = 1)"
    by (simp add: fold_runs_eq desugar_eq del: insert_iff)
qed

theorem token_counts_invariant_witness:
  "list_all well_counted [(''+'', 2), (''.'', 1)] \<and>
   (\<exists>out. desugar [(''+'', 2), (''.'', 1)] = Inr out \<and> list_all well_counted out) \<and>
   (\<exists>ts. fold_runs ''++.'' = Inr ts \<and> list_all well_counted ts)"
  using token_counts_invariant [of "''++.''" "[(''+'', 2), (''.'', 1)]"]
  by (simp add: well_counted_def)

text \<open>
  Claim C4. On every token sequence the Desugarer returns what the single non-overlapping
  left-to-right pass of the specification (\<open>desugar_spec\<close>) returns. The exact triple
  \<^verbatim>\<open>('[',1) ('-',1) (']',1)\<close> becomes the one token \<^verbatim>\<open>('CLR',1)\<close>; the window
  \<^verbatim>\<open>('[',1) ('-',2) (']',1)\<close> is left untouched; a token sequence in which the exact triple
  does not occur is returned unchanged; no exact triple is left in the result; every token
  of the result is \<^verbatim>\<open>('CLR',1)\<close> or a token of the input; and the result is never longer
  than the input.
\<close>

theorem desugar_single_pass:
  "desugar tokens = Inr (desugar_spec tokens) \<and>
   desugar [(''['', 1), (''-'', 1), ('']'', 1)] = Inr [(''CLR'', 1)] \<and>
   desugar [(''['', 1), (''-'', 2), ('']'', 1)] = Inr [(''['', 1), (''-'', 2), ('']'', 1)] \<and>
   (\<not> sublist [(''['', 1), (''-'', 1), ('']'', 1)] tokens \<longrightarrow> desugar tokens = Inr tokens) \<and>
   \<not> sublist [(''['', 1), (''-'', 1), ('']'', 1)] (desugar_spec tokens) \<and>
   set (desugar_spec tokens) \<subseteq> insert (''CLR'', 1) (set tokens) \<and>
   length (desugar_spec tokens) \<le> length tokens"
  by (simp add: desugar_eq desugar_spec_no_idiom desugar_spec_length desugar_spec.simps(2)
      desugar_spec_untouched desugar_spec_set del: insert_subset)

theorem desugar_single_pass_witness:
  "\<not> sublist [(''['', 1), (''-'', 1), ('']'', 1)]
       ([(''+'', 2), (''['', 1), (''-'', 2), ('']'', 1)] :: token list) \<and>
   desugar [(''+'', 2), (''['', 1), (''-'', 2), ('']'', 1)] =
     Inr [(''+'', 2), (''['', 1), (''-'', 2), ('']'', 1)]"
proof -
  have h: "\<not> sublist [(''['', 1), (''-'', 1), ('']'', 1)]
       ([(''+'', 2), (''['', 1), (''-'', 2), ('']'', 1)] :: token list)"
    by (simp add: sublist_code)
  from desugar_single_pass [of "[(''+'', 2), (''['', 1), (''-'', 2), ('']'', 1)]"]
  have "\<not> sublist [(''['', 1), (''-'', 1), ('']'', 1)]
          ([(''+'', 2), (''['', 1), (''-'', 2), ('']'', 1)] :: token list) \<longrightarrow>
        desugar [(''+'', 2), (''['', 1), (''-'', 2), ('']'', 1)] =
          Inr [(''+'', 2), (''['', 1), (''-'', 2), ('']'', 1)]"
    by (elim conjE)
  with h show ?thesis by (intro conjI) (rule h, erule mp)
qed

text \<open>
  Claim C10. The Desugarer is idempotent: on every token sequence it returns a sequence
  on which a second pass returns the same sequence.
\<close>

theorem desugar_idempotent:
  "\<exists>out. desugar tokens = Inr out \<and> desugar out = Inr out"
  by (simp add: desugar_eq desugar_spec_idem)

section \<open>Lines, indentation and substrings of the emitted text\<close>

text \<open>
  A fragment \<open>m\<close> occurs in a text \<open>t\<close> when \<open>sublist m t\<close> holds (a contiguous
  occurrence). The lemmas below reduce an occurrence in an emitted line, which is an
  indentation, fixed text and the decimal numeral of a count, to an occurrence in the fixed
  text, for every fragment that holds no blank, digit or minus sign.
\<close>

definition plain :: "string \<Rightarrow> bool" where
  "plain m = (set '' -0123456789'' \<inter> set m = {})"

lemma sublist_skip_char:
  assumes c: "c \<notin> set m" and s: "sublist m (xs @ c # ys)"
  shows "sublist m xs \<or> sublist m ys"
proof -
  from s consider "sublist m xs" | "sublist m (c # ys)"
    | xs1 xs2 where "m = xs1 @ xs2" "suffix xs1 xs" "prefix xs2 (c # ys)"
    unfolding sublist_append by blast
  then show ?thesis
  proof cases
    case 1
    then show ?thesis ..
  next
    case 2
    then have "prefix m (c # ys) \<or> sublist m ys" by (simp add: sublist_Cons_right)
    with c show ?thesis by (cases m) auto
  next
    case 3
    with c have "xs2 = []" by (cases xs2) auto
    with 3 show ?thesis by auto
  qed
qed

lemma sublist_skip_front:
  "set v \<inter> set m = {} \<Longrightarrow> sublist m (v @ ys) \<Longrightarrow> sublist m ys"
proof (induction v)
  case Nil
  then show ?case by simp
next
  case (Cons c v)
  from Cons.prems have c: "c \<notin> set m" and v: "set v \<inter> set m = {}" by auto
  from Cons.prems(2) have "sublist m ([] @ c # (v @ ys))" by simp
  from sublist_skip_char [OF c this] have "sublist m (v @ ys)" by auto
  with Cons.IH [OF v] show ?case .
qed

lemma sublist_skip:
  assumes d: "set v \<inter> set m = {}" and ne: "v \<noteq> []"
  shows "sublist m (xs @ v @ ys) \<longleftrightarrow> sublist m xs \<or> sublist m ys"
proof
  assume s: "sublist m (xs @ v @ ys)"
  from ne obtain c w where v: "v = c # w" by (cases v) auto
  with d have c: "c \<notin> set m" and w: "set w \<inter> set m = {}" by auto
  from s v have "sublist m (xs @ c # (w @ ys))" by simp
  from sublist_skip_char [OF c this] sublist_skip_front [OF w]
  show "sublist m xs \<or> sublist m ys" by blast
next
  assume "sublist m xs \<or> sublist m ys"
  then show "sublist m (xs @ v @ ys)"
  proof
    assume "sublist m xs"
    then obtain ps ss where "xs = ps @ m @ ss" by (auto simp: sublist_def)
    then have "xs @ v @ ys = ps @ m @ (ss @ v @ ys)" by simp
    then show ?thesis unfolding sublist_def by blast
  next
    assume "sublist m ys"
    then obtain ps ss where "ys = ps @ m @ ss" by (auto simp: sublist_def)
    then have "xs @ v @ ys = (xs @ v @ ps) @ m @ ss" by simp
    then show ?thesis unfolding sublist_def by blast
  qed
qed

lemma digit_char_set: "d < 10 \<Longrightarrow> digit_char d \<in> set ''0123456789''"
  unfolding digit_char_def by (rule nth_mem) simp

lemma str_nat_set: "set (str_nat n) \<subseteq> set ''0123456789''"
proof (induction n rule: str_nat.induct)
  case (1 n)
  show ?case
  proof (cases "n < 10")
    case True
    with digit_char_set [of n] show ?thesis
      by (subst str_nat.simps) simp
  next
    case False
    have "digit_char (n mod 10) \<in> set ''0123456789''"
      by (rule digit_char_set) simp
    with False "1.IH" show ?thesis
      by (subst str_nat.simps) simp
  qed
qed

lemma str_nat_nonempty: "str_nat n \<noteq> []"
  by (subst str_nat.simps) simp

lemma str_int_set: "set (str_int n) \<subseteq> set ''-0123456789''"
proof -
  have "set ''0123456789'' \<subseteq> set ''-0123456789''" by (simp add: subset_insertI)
  with str_nat_set have a: "set (str_nat k) \<subseteq> set ''-0123456789''" for k
    by (rule order_trans)
  show ?thesis
  proof (cases "n < 0")
    case True
    have "CHR ''-'' \<in> set ''-0123456789''" by simp
    with a [of "nat (- n)"] True show ?thesis
      by (simp only: str_int_def if_True set_simps insert_subset)
  next
    case False
    with a [of "nat n"] show ?thesis by (simp only: str_int_def if_False)
  qed
qed

lemma str_int_nonempty: "str_int n \<noteq> []"
  by (simp add: str_int_def str_nat_nonempty)

lemma indent_set: "set (indent k) \<subseteq> {CHR '' ''}"
  by (auto simp: indent_def)


lemma plain_indent: "plain m \<Longrightarrow> sublist m (indent k @ xs) \<longleftrightarrow> sublist m xs"
proof
  assume p: "plain m" and s: "sublist m (indent k @ xs)"
  from p indent_set [of k] have "set (indent k) \<inter> set m = {}"
    by (auto simp: plain_def)
  from sublist_skip_front [OF this s] show "sublist m xs" .
next
  assume "sublist m xs"
  then obtain ps ss where "xs = ps @ m @ ss" by (auto simp: sublist_def)
  then have "indent k @ xs = (indent k @ ps) @ m @ ss" by simp
  then show "sublist m (indent k @ xs)" unfolding sublist_def by blast
qed

lemma plain_str_int:
  assumes p: "plain m"
  shows "sublist m (xs @ str_int n @ ys) \<longleftrightarrow> sublist m xs \<or> sublist m ys"
proof -
  from p str_int_set [of n] have "set (str_int n) \<inter> set m = {}"
    by (auto simp: plain_def)
  from sublist_skip [OF this str_int_nonempty] show ?thesis .
qed

lemma join_lines_sublist:
  "CHR 0x0A \<notin> set m \<Longrightarrow> m \<noteq> [] \<Longrightarrow> sublist m (join_lines ls) \<Longrightarrow> \<exists>l \<in> set ls. sublist m l"
proof (induction ls rule: join_lines.induct)
  case 1
  then show ?case by simp
next
  case (2 l)
  then show ?case by simp
next
  case (3 l k ls)
  from "3.prems"(3) have "sublist m (l @ CHR 0x0A # join_lines (k # ls))" by simp
  from sublist_skip_char [OF "3.prems"(1) this] "3.IH" [OF "3.prems"(1,2)]
  show ?case by auto
qed

lemma plain_str_int_end:
  "plain m \<Longrightarrow> m \<noteq> [] \<Longrightarrow> sublist m (xs @ str_int n) \<longleftrightarrow> sublist m xs"
  using plain_str_int [of m xs n "[]"] by auto

lemmas line_simps = e_def plain_indent plain_str_int plain_str_int_end plain_def sublist_code

lemma foldl_lines:
  assumes step: "\<And>s t. P (fst s) \<Longrightarrow> P (fst (f s t))"
  shows "P (fst s) \<Longrightarrow> P (fst (foldl f s ts))"
  by (induction ts arbitrary: s) (simp_all add: step)

lemma join_lines_clean:
  assumes "CHR 0x0A \<notin> set m" and "m \<noteq> []" and "\<forall>l \<in> set ls. \<not> sublist m l"
  shows "\<not> sublist m (join_lines ls)"
  using join_lines_sublist [OF assms(1,2)] assms(3) by blast

section \<open>The nesting depth never falls below its floor\<close>












section \<open>When the emitters return and when they raise\<close>

lemma with_fstr_renderable: "renderable n \<Longrightarrow> with_fstr n k = Inr (k (str_int n))"
  by (simp add: with_fstr_def fstr_def)

lemma with_fstr_raises: "\<not> renderable n \<Longrightarrow> with_fstr n k = Inl ValueError"
  by (simp add: with_fstr_def fstr_def)

lemma for_tokens_eq:
  assumes "\<And>s t. t \<in> set ts \<Longrightarrow> g s t = Inr (f s t)"
  shows "for_tokens g s ts = Inr (foldl f s ts)"
  using assms by (induction ts arbitrary: s) simp_all

lemma python_tok_exn_eq:
  "renderable (snd t) \<Longrightarrow> python_tok_exn s t = Inr (python_tok s t)"
  by (cases s; cases t) (simp add: with_fstr_renderable)
lemma go_tok_exn_eq:
  "renderable (snd t) \<Longrightarrow> go_tok_exn inp s t = Inr (go_tok inp s t)"
  by (cases s; cases t) (simp add: with_fstr_renderable)
lemma cpp_tok_exn_eq:
  "renderable (snd t) \<Longrightarrow> cpp_tok_exn inp s t = Inr (cpp_tok inp s t)"
  by (cases s; cases t) (simp add: with_fstr_renderable)
lemma csharp_tok_exn_eq:
  "renderable (snd t) \<Longrightarrow> csharp_tok_exn inp s t = Inr (csharp_tok inp s t)"
  by (cases s; cases t) (simp add: with_fstr_renderable)
lemma lua_tok_exn_eq:
  "renderable (snd t) \<Longrightarrow> lua_tok_exn s t = Inr (lua_tok s t)"
  by (cases s; cases t) (simp add: with_fstr_renderable)
lemma ruby_tok_exn_eq:
  "renderable (snd t) \<Longrightarrow> ruby_tok_exn s t = Inr (ruby_tok s t)"
  by (cases s; cases t) (simp add: with_fstr_renderable)
lemma rust_tok_exn_eq:
  "renderable (snd t) \<Longrightarrow> rust_tok_exn inp s t = Inr (rust_tok inp s t)"
  by (cases s; cases t) (simp add: with_fstr_renderable)

lemma emitters_exn_eq:
  assumes r: "list_all (\<lambda>t. renderable (snd t)) tokens"
  shows "emit_python_exn tokens = Inr (emit_python tokens)"
    and "emit_go_exn tokens = Inr (emit_go tokens)"
    and "emit_cpp_exn tokens = Inr (emit_cpp tokens)"
    and "emit_csharp_exn tokens = Inr (emit_csharp tokens)"
    and "emit_lua_exn tokens = Inr (emit_lua tokens)"
    and "emit_ruby_exn tokens = Inr (emit_ruby tokens)"
    and "emit_rust_exn tokens = Inr (emit_rust tokens)"
proof -
  from r have t: "renderable (snd t)" if "t \<in> set tokens" for t
    using that by (simp add: list_all_iff)
  show "emit_python_exn tokens = Inr (emit_python tokens)"
    by (simp add: emit_python_exn_def emit_python_def
        for_tokens_eq [where f = python_tok] python_tok_exn_eq t split: prod.splits)
  show "emit_go_exn tokens = Inr (emit_go tokens)"
    by (simp add: emit_go_exn_def emit_go_def
        for_tokens_eq [where f = "go_tok (has_in tokens)"] go_tok_exn_eq t split: prod.splits)
  show "emit_cpp_exn tokens = Inr (emit_cpp tokens)"
    by (simp add: emit_cpp_exn_def emit_cpp_def
        for_tokens_eq [where f = "cpp_tok (has_in tokens)"] cpp_tok_exn_eq t split: prod.splits)
  show "emit_csharp_exn tokens = Inr (emit_csharp tokens)"
    by (simp add: emit_csharp_exn_def emit_csharp_def
        for_tokens_eq [where f = "csharp_tok (has_in tokens)"] csharp_tok_exn_eq t split: prod.splits)
  show "emit_lua_exn tokens = Inr (emit_lua tokens)"
    by (simp add: emit_lua_exn_def emit_lua_def
        for_tokens_eq [where f = lua_tok] lua_tok_exn_eq t split: prod.splits)
  show "emit_ruby_exn tokens = Inr (emit_ruby tokens)"
    by (simp add: emit_ruby_exn_def emit_ruby_def
        for_tokens_eq [where f = ruby_tok] ruby_tok_exn_eq t split: prod.splits)
  show "emit_rust_exn tokens = Inr (emit_rust tokens)"
    by (simp add: emit_rust_exn_def emit_rust_def
        for_tokens_eq [where f = "rust_tok (has_in tokens)"] rust_tok_exn_eq t split: prod.splits)
qed

lemma not_renderable_limit: "\<not> renderable (10 ^ int_max_str_digits)"
  by (simp add: renderable_def)

lemma renderable_small: "\<bar>n\<bar> < 10 \<Longrightarrow> renderable n"
proof -
  assume a: "\<bar>n\<bar> < 10"
  have "1 \<le> int_max_str_digits" by (simp add: int_max_str_digits_def)
  then have "(10::int) ^ 1 \<le> 10 ^ int_max_str_digits"
    by (rule power_increasing) simp
  with a show ?thesis by (simp add: renderable_def)
qed

lemma with_fstr_error: "with_fstr n k = Inl err \<Longrightarrow> err = ValueError"
  by (simp add: with_fstr_def fstr_def split: if_splits)

lemma for_tokens_raises:
  assumes only: "\<And>s t err. f s t = Inl err \<Longrightarrow> err = ValueError"
    and hit: "\<exists>t \<in> set ts. \<forall>s. f s t = Inl ValueError"
  shows "for_tokens f s ts = Inl ValueError"
  using hit
proof (induction ts arbitrary: s)
  case Nil
  then show ?case by simp
next
  case (Cons t ts)
  show ?case
  proof (cases "f s t")
    case (Inl err)
    with only [of s t err] show ?thesis by simp
  next
    case (Inr s')
    with Cons.prems have "\<exists>u \<in> set ts. \<forall>s. f s u = Inl ValueError" by auto
    from Cons.IH [OF this] Inr show ?thesis by simp
  qed
qed

lemma python_tok_exn_error: "python_tok_exn s t = Inl err \<Longrightarrow> err = ValueError"
  by (cases s; cases t) (auto split: if_splits dest: with_fstr_error)
lemma go_tok_exn_error: "go_tok_exn inp s t = Inl err \<Longrightarrow> err = ValueError"
  by (cases s; cases t) (auto split: if_splits dest: with_fstr_error)
lemma cpp_tok_exn_error: "cpp_tok_exn inp s t = Inl err \<Longrightarrow> err = ValueError"
  by (cases s; cases t) (auto split: if_splits dest: with_fstr_error)
lemma csharp_tok_exn_error: "csharp_tok_exn inp s t = Inl err \<Longrightarrow> err = ValueError"
  by (cases s; cases t) (auto split: if_splits dest: with_fstr_error)
lemma lua_tok_exn_error: "lua_tok_exn s t = Inl err \<Longrightarrow> err = ValueError"
  by (cases s; cases t) (auto split: if_splits dest: with_fstr_error)
lemma ruby_tok_exn_error: "ruby_tok_exn s t = Inl err \<Longrightarrow> err = ValueError"
  by (cases s; cases t) (auto split: if_splits dest: with_fstr_error)
lemma rust_tok_exn_error: "rust_tok_exn inp s t = Inl err \<Longrightarrow> err = ValueError"
  by (cases s; cases t) (auto split: if_splits dest: with_fstr_error)

lemma python_tok_exn_wide: "formats_wide_count t \<Longrightarrow> python_tok_exn s t = Inl ValueError"
  by (cases s; cases t) (auto simp: formats_wide_count_def with_fstr_raises)
lemma go_tok_exn_wide: "formats_wide_count t \<Longrightarrow> go_tok_exn inp s t = Inl ValueError"
  by (cases s; cases t) (auto simp: formats_wide_count_def with_fstr_raises)
lemma cpp_tok_exn_wide: "formats_wide_count t \<Longrightarrow> cpp_tok_exn inp s t = Inl ValueError"
  by (cases s; cases t) (auto simp: formats_wide_count_def with_fstr_raises)
lemma csharp_tok_exn_wide: "formats_wide_count t \<Longrightarrow> csharp_tok_exn inp s t = Inl ValueError"
  by (cases s; cases t) (auto simp: formats_wide_count_def with_fstr_raises)
lemma lua_tok_exn_wide: "formats_wide_count t \<Longrightarrow> lua_tok_exn s t = Inl ValueError"
  by (cases s; cases t) (auto simp: formats_wide_count_def with_fstr_raises)
lemma ruby_tok_exn_wide: "formats_wide_count t \<Longrightarrow> ruby_tok_exn s t = Inl ValueError"
  by (cases s; cases t) (auto simp: formats_wide_count_def with_fstr_raises)
lemma rust_tok_exn_wide: "formats_wide_count t \<Longrightarrow> rust_tok_exn inp s t = Inl ValueError"
  by (cases s; cases t) (auto simp: formats_wide_count_def with_fstr_raises)

lemma emitters_exn_raise:
  assumes w: "list_ex formats_wide_count tokens"
  shows "emit_python_exn tokens = Inl ValueError"
    and "emit_go_exn tokens = Inl ValueError"
    and "emit_cpp_exn tokens = Inl ValueError"
    and "emit_csharp_exn tokens = Inl ValueError"
    and "emit_lua_exn tokens = Inl ValueError"
    and "emit_ruby_exn tokens = Inl ValueError"
    and "emit_rust_exn tokens = Inl ValueError"
proof -
  from w obtain t where t: "t \<in> set tokens" "formats_wide_count t"
    by (auto simp: list_ex_iff)
  have "for_tokens python_tok_exn s tokens = Inl ValueError" for s
    by (rule for_tokens_raises [OF python_tok_exn_error]) (use t python_tok_exn_wide in blast)+
  then show "emit_python_exn tokens = Inl ValueError" by (simp add: emit_python_exn_def)
  have "for_tokens (go_tok_exn inp) s tokens = Inl ValueError" for s inp
    by (rule for_tokens_raises [OF go_tok_exn_error]) (use t go_tok_exn_wide in blast)+
  then show "emit_go_exn tokens = Inl ValueError" by (simp add: emit_go_exn_def)
  have "for_tokens (cpp_tok_exn inp) s tokens = Inl ValueError" for s inp
    by (rule for_tokens_raises [OF cpp_tok_exn_error]) (use t cpp_tok_exn_wide in blast)+
  then show "emit_cpp_exn tokens = Inl ValueError" by (simp add: emit_cpp_exn_def)
  have "for_tokens (csharp_tok_exn inp) s tokens = Inl ValueError" for s inp
    by (rule for_tokens_raises [OF csharp_tok_exn_error]) (use t csharp_tok_exn_wide in blast)+
  then show "emit_csharp_exn tokens = Inl ValueError" by (simp add: emit_csharp_exn_def)
  have "for_tokens lua_tok_exn s tokens = Inl ValueError" for s
    by (rule for_tokens_raises [OF lua_tok_exn_error]) (use t lua_tok_exn_wide in blast)+
  then show "emit_lua_exn tokens = Inl ValueError" by (simp add: emit_lua_exn_def)
  have "for_tokens ruby_tok_exn s tokens = Inl ValueError" for s
    by (rule for_tokens_raises [OF ruby_tok_exn_error]) (use t ruby_tok_exn_wide in blast)+
  then show "emit_ruby_exn tokens = Inl ValueError" by (simp add: emit_ruby_exn_def)
  have "for_tokens (rust_tok_exn inp) s tokens = Inl ValueError" for s inp
    by (rule for_tokens_raises [OF rust_tok_exn_error]) (use t rust_tok_exn_wide in blast)+
  then show "emit_rust_exn tokens = Inl ValueError" by (simp add: emit_rust_exn_def)
qed

lemma fold_runs_spec_bound: "\<forall>t \<in> set (fold_runs_spec ops). \<bar>snd t\<bar> \<le> int (length ops)"
proof (induction ops rule: fold_runs_spec.induct)
  case 1
  show ?case by simp
next
  case (2 c cs)
  have k: "length (takeWhile (\<lambda>d. d = c) cs) \<le> length cs"
    by (rule length_takeWhile_le)
  have d: "length (dropWhile (\<lambda>d. d = c) cs) \<le> length cs"
    by (rule length_dropWhile_le)
  show ?case
  proof (cases "c \<in> set ''+-<>''")
    case True
    from "2.IH"(1) [OF True] d
    have "\<forall>t \<in> set (fold_runs_spec (dropWhile (\<lambda>d. d = c) cs)). \<bar>snd t\<bar> \<le> int (length cs)"
      by fastforce
    with True k show ?thesis by (simp del: insert_iff) fastforce
  next
    case False
    from "2.IH"(2) [OF False]
    have "\<forall>t \<in> set (fold_runs_spec cs). \<bar>snd t\<bar> \<le> 1 + int (length cs)"
      by fastforce
    with False show ?thesis by simp
  qed
qed

lemma pipeline_renderable:
  assumes len: "length src < 10 ^ int_max_str_digits"
  shows "list_all (\<lambda>t. renderable (snd t)) (desugar_spec (fold_runs_spec (sanitize src)))"
proof -
  have "length (sanitize src) \<le> length src" by (simp add: sanitize_def)
  with len have "length (sanitize src) < 10 ^ int_max_str_digits" by simp
  then have "int (length (sanitize src)) < int (10 ^ int_max_str_digits)"
    by (simp only: of_nat_less_iff)
  then have b: "int (length (sanitize src)) < 10 ^ int_max_str_digits" by simp
  have "renderable (snd t)" if t: "t \<in> set (desugar_spec (fold_runs_spec (sanitize src)))" for t
  proof (cases "t = (''CLR'', 1)")
    case True
    then show ?thesis by (simp add: renderable_small)
  next
    case False
    with t desugar_spec_set [of "fold_runs_spec (sanitize src)"]
    have "t \<in> set (fold_runs_spec (sanitize src))" by auto
    with fold_runs_spec_bound have "\<bar>snd t\<bar> \<le> int (length (sanitize src))" by blast
    then have "\<bar>snd t\<bar> < 10 ^ int_max_str_digits" using b by (rule le_less_trans)
    then show ?thesis unfolding renderable_def .
  qed
  then show ?thesis by (simp add: list_all_iff)
qed

section \<open>The text that reads standard input\<close>

text \<open>
  The fragments by which an emitted program declares or calls its reader of standard
  input, taken from the lines the emitters write only when \<open>has_in\<close> holds: for Go the
  \<^verbatim>\<open>"io"\<close> import, \<^verbatim>\<open>bufio.NewReader(os.Stdin)\<close>, \<^verbatim>\<open>in.ReadByte()\<close> and \<^verbatim>\<open>getchar\<close>; for C++
  \<^verbatim>\<open>std::cin.get()\<close> and the \<^verbatim>\<open>EOF\<close> test; for C# \<^verbatim>\<open>Console.OpenStandardInput()\<close>, the
  variable \<^verbatim>\<open>input\<close> and \<^verbatim>\<open>input.ReadByte()\<close>; for Rust \<^verbatim>\<open>io::stdin()\<close>, the buffer \<^verbatim>\<open>buf\<close>,
  \<^verbatim>\<open>stdin.read(...)\<close> and \<^verbatim>\<open>getchar\<close>.
\<close>

definition go_reads :: "string list" where
  \<open>go_reads = [''Stdin'', ''NewReader'', ''ReadByte'', ''getchar'', ''"io"'']\<close>

definition cpp_reads :: "string list" where
  "cpp_reads = [''cin.get'', ''EOF'']"

definition csharp_reads :: "string list" where
  "csharp_reads = [''OpenStandardInput'', ''ReadByte'', ''input'']"

definition rust_reads :: "string list" where
  "rust_reads = [''stdin'', ''.read('', ''getchar'', ''buf'']"

lemma go_reads_cases:
  \<open>m \<in> set go_reads \<Longrightarrow>
   m = ''Stdin'' \<or> m = ''NewReader'' \<or> m = ''ReadByte'' \<or> m = ''getchar'' \<or> m = ''"io"''\<close>
  by (simp add: go_reads_def)

lemma cpp_reads_cases: "m \<in> set cpp_reads \<Longrightarrow> m = ''cin.get'' \<or> m = ''EOF''"
  by (simp add: cpp_reads_def)

lemma csharp_reads_cases:
  "m \<in> set csharp_reads \<Longrightarrow> m = ''OpenStandardInput'' \<or> m = ''ReadByte'' \<or> m = ''input''"
  by (simp add: csharp_reads_def)

lemma rust_reads_cases:
  "m \<in> set rust_reads \<Longrightarrow> m = ''stdin'' \<or> m = ''.read('' \<or> m = ''getchar'' \<or> m = ''buf''"
  by (simp add: rust_reads_def)

lemma go_tok_clean:
  assumes m: "m \<in> set go_reads" and L: "\<forall>l \<in> set (fst s). \<not> sublist m l"
  shows "\<forall>l \<in> set (fst (go_tok False s t)). \<not> sublist m l"
proof -
  obtain L ind where s: "s = (L, ind)" by (cases s)
  obtain op n where t: "t = (op, n)" by (cases t)
  from go_reads_cases [OF m] show ?thesis
    using L unfolding s t
    by (elim disjE; simp add: line_simps del: append.simps append_Cons append_Nil)
qed

lemma cpp_tok_clean:
  assumes m: "m \<in> set cpp_reads" and L: "\<forall>l \<in> set (fst s). \<not> sublist m l"
  shows "\<forall>l \<in> set (fst (cpp_tok False s t)). \<not> sublist m l"
proof -
  obtain L ind where s: "s = (L, ind)" by (cases s)
  obtain op n where t: "t = (op, n)" by (cases t)
  from cpp_reads_cases [OF m] show ?thesis
    using L unfolding s t
    by (elim disjE; simp add: line_simps del: append.simps append_Cons append_Nil)
qed

lemma csharp_tok_clean:
  assumes m: "m \<in> set csharp_reads" and L: "\<forall>l \<in> set (fst s). \<not> sublist m l"
  shows "\<forall>l \<in> set (fst (csharp_tok False s t)). \<not> sublist m l"
proof -
  obtain L ind where s: "s = (L, ind)" by (cases s)
  obtain op n where t: "t = (op, n)" by (cases t)
  from csharp_reads_cases [OF m] show ?thesis
    using L unfolding s t
    by (elim disjE; simp add: line_simps del: append.simps append_Cons append_Nil)
qed

lemma rust_tok_clean:
  assumes m: "m \<in> set rust_reads" and L: "\<forall>l \<in> set (fst s). \<not> sublist m l"
  shows "\<forall>l \<in> set (fst (rust_tok False s t)). \<not> sublist m l"
proof -
  obtain L ind where s: "s = (L, ind)" by (cases s)
  obtain op n where t: "t = (op, n)" by (cases t)
  from rust_reads_cases [OF m] show ?thesis
    using L unfolding s t
    by (elim disjE; simp add: line_simps del: append.simps append_Cons append_Nil)
qed

lemma go_clean:
  assumes m: "m \<in> set go_reads" and inp: "\<not> has_in tokens"
  shows "\<not> sublist m (emit_go tokens)"
proof -
  obtain L ind where f: "foldl (go_tok False) (go_head False, 1) tokens = (L, ind)"
    by (cases "foldl (go_tok False) (go_head False, 1) tokens")
  have "\<forall>l \<in> set (go_head False). \<not> sublist m l"
    using go_reads_cases [OF m] by (elim disjE; simp add: go_head_def sublist_code)
  then have "\<forall>l \<in> set (fst (foldl (go_tok False) (go_head False, 1) tokens)). \<not> sublist m l"
    by (intro foldl_lines [where P = "\<lambda>L. \<forall>l \<in> set L. \<not> sublist m l"] go_tok_clean [OF m]) simp_all
  with f have L: "\<forall>l \<in> set L. \<not> sublist m l" by simp
  have "\<forall>l \<in> set [''}'', '''']. \<not> sublist m l" and "CHR 0x0A \<notin> set m" and "m \<noteq> []"
    using go_reads_cases [OF m] by (elim disjE; simp add: sublist_code)+
  with L have "\<not> sublist m (join_lines (L @ [''}'', '''']))"
    by (intro join_lines_clean) auto
  with f inp show ?thesis by (simp add: emit_go_def)
qed

lemma cpp_clean:
  assumes m: "m \<in> set cpp_reads" and inp: "\<not> has_in tokens"
  shows "\<not> sublist m (emit_cpp tokens)"
proof -
  obtain L ind where f: "foldl (cpp_tok False) (cpp_head, 1) tokens = (L, ind)"
    by (cases "foldl (cpp_tok False) (cpp_head, 1) tokens")
  have "\<forall>l \<in> set cpp_head. \<not> sublist m l"
    using cpp_reads_cases [OF m] by (elim disjE; simp add: cpp_head_def sublist_code)
  then have "\<forall>l \<in> set (fst (foldl (cpp_tok False) (cpp_head, 1) tokens)). \<not> sublist m l"
    by (intro foldl_lines [where P = "\<lambda>L. \<forall>l \<in> set L. \<not> sublist m l"] cpp_tok_clean [OF m]) simp_all
  with f have L: "\<forall>l \<in> set L. \<not> sublist m l" by simp
  have "\<forall>l \<in> set [indent ind @ ''return 0;'', ''}'', '''']. \<not> sublist m l"
    and "CHR 0x0A \<notin> set m" and "m \<noteq> []"
    using cpp_reads_cases [OF m]
    by (elim disjE; simp add: line_simps del: append.simps append_Cons append_Nil)+
  with L have "\<not> sublist m (join_lines (L @ [indent ind @ ''return 0;'', ''}'', '''']))"
    by (intro join_lines_clean) auto
  with f inp show ?thesis by (simp add: emit_cpp_def e_def)
qed

lemma csharp_clean:
  assumes m: "m \<in> set csharp_reads" and inp: "\<not> has_in tokens"
  shows "\<not> sublist m (emit_csharp tokens)"
proof -
  obtain L ind where f: "foldl (csharp_tok False) (csharp_head False, 1) tokens = (L, ind)"
    by (cases "foldl (csharp_tok False) (csharp_head False, 1) tokens")
  have "\<forall>l \<in> set (csharp_head False). \<not> sublist m l"
    using csharp_reads_cases [OF m] by (elim disjE; simp add: csharp_head_def sublist_code)
  then have "\<forall>l \<in> set (fst (foldl (csharp_tok False) (csharp_head False, 1) tokens)). \<not> sublist m l"
    by (intro foldl_lines [where P = "\<lambda>L. \<forall>l \<in> set L. \<not> sublist m l"] csharp_tok_clean [OF m]) simp_all
  with f have L: "\<forall>l \<in> set L. \<not> sublist m l" by simp
  have "\<forall>l \<in> set [''}}'', '''']. \<not> sublist m l" and "CHR 0x0A \<notin> set m" and "m \<noteq> []"
    using csharp_reads_cases [OF m] by (elim disjE; simp add: sublist_code)+
  with L have "\<not> sublist m (join_lines (L @ [''}}'', '''']))"
    by (intro join_lines_clean) auto
  with f inp show ?thesis by (simp add: emit_csharp_def)
qed

lemma rust_clean:
  assumes m: "m \<in> set rust_reads" and inp: "\<not> has_in tokens"
  shows "\<not> sublist m (emit_rust tokens)"
proof -
  obtain L ind where f: "foldl (rust_tok False) (rust_head False, 1) tokens = (L, ind)"
    by (cases "foldl (rust_tok False) (rust_head False, 1) tokens")
  have "\<forall>l \<in> set (rust_head False). \<not> sublist m l"
    using rust_reads_cases [OF m] by (elim disjE; simp add: rust_head_def sublist_code)
  then have "\<forall>l \<in> set (fst (foldl (rust_tok False) (rust_head False, 1) tokens)). \<not> sublist m l"
    by (intro foldl_lines [where P = "\<lambda>L. \<forall>l \<in> set L. \<not> sublist m l"] rust_tok_clean [OF m]) simp_all
  with f have L: "\<forall>l \<in> set L. \<not> sublist m l" by simp
  have "\<forall>l \<in> set [indent ind @ ''out.flush().unwrap();'', ''}'', '''']. \<not> sublist m l"
    and "CHR 0x0A \<notin> set m" and "m \<noteq> []"
    using rust_reads_cases [OF m]
    by (elim disjE; simp add: line_simps del: append.simps append_Cons append_Nil)+
  with L have "\<not> sublist m (join_lines (L @ [indent ind @ ''out.flush().unwrap();'', ''}'', '''']))"
    by (intro join_lines_clean) auto
  with f inp show ?thesis by (simp add: emit_rust_def e_def)
qed

text \<open>With an input token every one of these fragments does occur in the emitted text.\<close>

lemma reads_present:
  "list_all (\<lambda>m. sublist m (emit_go [('','', 1)])) go_reads \<and>
   list_all (\<lambda>m. sublist m (emit_cpp [('','', 1)])) cpp_reads \<and>
   list_all (\<lambda>m. sublist m (emit_csharp [('','', 1)])) csharp_reads \<and>
   list_all (\<lambda>m. sublist m (emit_rust [('','', 1)])) rust_reads"
  by (simp add: go_reads_def cpp_reads_def csharp_reads_def rust_reads_def
      emit_go_def go_head_def emit_cpp_def cpp_head_def emit_csharp_def csharp_head_def
      emit_rust_def rust_head_def has_in_def e_def indent_def sublist_code)

section \<open>Evaluating the pipeline\<close>

lemma fold_runs_spec_run:
  "c \<in> set ''+-<>'' \<Longrightarrow> fold_runs_spec (c # replicate k c) = [([c], 1 + int k)]"
  by (simp add: takeWhile_replicate dropWhile_replicate)

lemmas emit_simps = has_in_def e_def indent_def str_int_def str_nat.simps digit_char_def

section \<open>The claims about the emitters\<close>

text \<open>
  Claim C8, as the code has it. \<open>sanitize\<close> returns a string over the eight operators on
  every input (the empty string on empty input). \<open>fold_runs\<close> and \<open>desugar\<close>, with every
  index access of their loops able to raise IndexError, return a token sequence on every
  string and on every token sequence, balanced or not. Every emitter returns its text on
  every token sequence whose counts all have at most 4300 decimal digits, and so the whole
  pipeline returns text for every source of fewer than \<open>10 ^ 4300\<close> characters. On a token
  sequence that holds a move, increment or decrement token with a count of more digits,
  every emitter raises ValueError.
\<close>

theorem front_end_total_emitters_render:
  "sanitize [] = [] \<and> set (sanitize src) \<subseteq> BF_OPS \<and>
   (\<exists>ts. fold_runs ops = Inr ts) \<and>
   (\<exists>out. desugar tokens = Inr out) \<and>
   (list_all (\<lambda>t. renderable (snd t)) tokens \<longrightarrow>
      emit_python_exn tokens = Inr (emit_python tokens) \<and>
      emit_go_exn tokens = Inr (emit_go tokens) \<and>
      emit_cpp_exn tokens = Inr (emit_cpp tokens) \<and>
      emit_csharp_exn tokens = Inr (emit_csharp tokens) \<and>
      emit_lua_exn tokens = Inr (emit_lua tokens) \<and>
      emit_ruby_exn tokens = Inr (emit_ruby tokens) \<and>
      emit_rust_exn tokens = Inr (emit_rust tokens)) \<and>
   (length src < 10 ^ int_max_str_digits \<longrightarrow>
      (\<exists>ts out. fold_runs (sanitize src) = Inr ts \<and> desugar ts = Inr out \<and>
         emit_python_exn out = Inr (emit_python out) \<and>
         emit_go_exn out = Inr (emit_go out) \<and>
         emit_cpp_exn out = Inr (emit_cpp out) \<and>
         emit_csharp_exn out = Inr (emit_csharp out) \<and>
         emit_lua_exn out = Inr (emit_lua out) \<and>
         emit_ruby_exn out = Inr (emit_ruby out) \<and>
         emit_rust_exn out = Inr (emit_rust out))) \<and>
   (list_ex formats_wide_count tokens \<longrightarrow>
      emit_python_exn tokens = Inl ValueError \<and>
      emit_go_exn tokens = Inl ValueError \<and>
      emit_cpp_exn tokens = Inl ValueError \<and>
      emit_csharp_exn tokens = Inl ValueError \<and>
      emit_lua_exn tokens = Inl ValueError \<and>
      emit_ruby_exn tokens = Inl ValueError \<and>
      emit_rust_exn tokens = Inl ValueError)"
proof (intro conjI impI)
  show "sanitize [] = []" by (simp add: sanitize_def)
  show "set (sanitize src) \<subseteq> BF_OPS" by (auto simp: sanitize_def)
  show "\<exists>ts. fold_runs ops = Inr ts" by (simp add: fold_runs_eq)
  show "\<exists>out. desugar tokens = Inr out" by (simp add: desugar_eq)
next
  assume r: "list_all (\<lambda>t. renderable (snd t)) tokens"
  note eq = emitters_exn_eq [OF r]
  show "emit_python_exn tokens = Inr (emit_python tokens)" by (rule eq)
  show "emit_go_exn tokens = Inr (emit_go tokens)" by (rule eq)
  show "emit_cpp_exn tokens = Inr (emit_cpp tokens)" by (rule eq)
  show "emit_csharp_exn tokens = Inr (emit_csharp tokens)" by (rule eq)
  show "emit_lua_exn tokens = Inr (emit_lua tokens)" by (rule eq)
  show "emit_ruby_exn tokens = Inr (emit_ruby tokens)" by (rule eq)
  show "emit_rust_exn tokens = Inr (emit_rust tokens)" by (rule eq)
next
  assume "length src < 10 ^ int_max_str_digits"
  from emitters_exn_eq [OF pipeline_renderable [OF this]]
  show "\<exists>ts out. fold_runs (sanitize src) = Inr ts \<and> desugar ts = Inr out \<and>
         emit_python_exn out = Inr (emit_python out) \<and>
         emit_go_exn out = Inr (emit_go out) \<and>
         emit_cpp_exn out = Inr (emit_cpp out) \<and>
         emit_csharp_exn out = Inr (emit_csharp out) \<and>
         emit_lua_exn out = Inr (emit_lua out) \<and>
         emit_ruby_exn out = Inr (emit_ruby out) \<and>
         emit_rust_exn out = Inr (emit_rust out)"
    by (simp add: fold_runs_eq desugar_eq)
next
  assume w: "list_ex formats_wide_count tokens"
  note ra = emitters_exn_raise [OF w]
  show "emit_python_exn tokens = Inl ValueError" by (rule ra)
  show "emit_go_exn tokens = Inl ValueError" by (rule ra)
  show "emit_cpp_exn tokens = Inl ValueError" by (rule ra)
  show "emit_csharp_exn tokens = Inl ValueError" by (rule ra)
  show "emit_lua_exn tokens = Inl ValueError" by (rule ra)
  show "emit_ruby_exn tokens = Inl ValueError" by (rule ra)
  show "emit_rust_exn tokens = Inl ValueError" by (rule ra)
qed

theorem front_end_total_emitters_render_witness:
  "list_all (\<lambda>t. renderable (snd t)) [(''+'', 3), (''.'', 1)] \<and>
   emit_python_exn [(''+'', 3), (''.'', 1)] = Inr (emit_python [(''+'', 3), (''.'', 1)]) \<and>
   emit_go_exn [(''+'', 3), (''.'', 1)] = Inr (emit_go [(''+'', 3), (''.'', 1)]) \<and>
   emit_cpp_exn [(''+'', 3), (''.'', 1)] = Inr (emit_cpp [(''+'', 3), (''.'', 1)]) \<and>
   emit_csharp_exn [(''+'', 3), (''.'', 1)] = Inr (emit_csharp [(''+'', 3), (''.'', 1)]) \<and>
   emit_lua_exn [(''+'', 3), (''.'', 1)] = Inr (emit_lua [(''+'', 3), (''.'', 1)]) \<and>
   emit_ruby_exn [(''+'', 3), (''.'', 1)] = Inr (emit_ruby [(''+'', 3), (''.'', 1)]) \<and>
   emit_rust_exn [(''+'', 3), (''.'', 1)] = Inr (emit_rust [(''+'', 3), (''.'', 1)]) \<and>
   length ''+[-].'' < 10 ^ int_max_str_digits \<and>
   (\<exists>out. desugar [(''+'', 1), (''['', 1), (''-'', 1), ('']'', 1), (''.'', 1)] = Inr out \<and>
      emit_python_exn out = Inr (emit_python out) \<and>
      emit_rust_exn out = Inr (emit_rust out)) \<and>
   list_ex formats_wide_count [(''.'', 1), (''>'', 10 ^ int_max_str_digits)] \<and>
   emit_python_exn [(''.'', 1), (''>'', 10 ^ int_max_str_digits)] = Inl ValueError \<and>
   emit_lua_exn [(''.'', 1), (''>'', 10 ^ int_max_str_digits)] = Inl ValueError"
proof -
  have r: "list_all (\<lambda>t. renderable (snd t)) [(''+'', 3), (''.'', 1)]"
    by (simp add: renderable_small)
  have "1 \<le> int_max_str_digits" by (simp add: int_max_str_digits_def)
  then have "(10::nat) ^ 1 \<le> 10 ^ int_max_str_digits"
    by (rule power_increasing) simp
  then have l: "length ''+[-].'' < 10 ^ int_max_str_digits" by simp
  have f: "fold_runs (sanitize ''+[-].'') =
      Inr [(''+'', 1), (''['', 1), (''-'', 1), ('']'', 1), (''.'', 1)]"
    by (simp add: sanitize_def BF_OPS_def fold_runs_eq)
  have w: "list_ex formats_wide_count [(''.'', 1), (''>'', 10 ^ int_max_str_digits)]"
    by (simp add: formats_wide_count_def not_renderable_limit)
  from front_end_total_emitters_render [of "''+[-].''" "[]" "[(''+'', 3), (''.'', 1)]"]
    front_end_total_emitters_render
      [of "[]" "[]" "[(''.'', 1), (''>'', 10 ^ int_max_str_digits)]"] r l f w
  show ?thesis by auto
qed

text \<open>
  Claim C8, as it is stated, fails for the emitters: on the single increment token whose
  count is \<open>10 ^ 4300\<close>, the least integer of 4301 digits, every emitter raises ValueError
  when it formats the count.
\<close>

theorem emitters_raise_counterexample:
  "emit_python_exn [(''+'', 10 ^ int_max_str_digits)] = Inl ValueError \<and>
   emit_go_exn [(''+'', 10 ^ int_max_str_digits)] = Inl ValueError \<and>
   emit_cpp_exn [(''+'', 10 ^ int_max_str_digits)] = Inl ValueError \<and>
   emit_csharp_exn [(''+'', 10 ^ int_max_str_digits)] = Inl ValueError \<and>
   emit_lua_exn [(''+'', 10 ^ int_max_str_digits)] = Inl ValueError \<and>
   emit_ruby_exn [(''+'', 10 ^ int_max_str_digits)] = Inl ValueError \<and>
   emit_rust_exn [(''+'', 10 ^ int_max_str_digits)] = Inl ValueError"
  by (simp add: emit_python_exn_def emit_go_exn_def emit_cpp_exn_def emit_csharp_exn_def
      emit_lua_exn_def emit_ruby_exn_def emit_rust_exn_def
      with_fstr_raises [OF not_renderable_limit])

text \<open>
  Claim C9. For every token sequence without an input token, the texts emitted for Go,
  C++, C# and Rust hold none of the fragments that declare or call the reader of standard
  input (\<open>go_reads\<close>, \<open>cpp_reads\<close>, \<open>csharp_reads\<close>, \<open>rust_reads\<close>). What stays in the text
  reads nothing: C++ keeps \<^verbatim>\<open>std::cin.tie(nullptr)\<close> in its fixed head and Rust keeps
  \<^verbatim>\<open>Read\<close> in its fixed \<^verbatim>\<open>use\<close> line.
\<close>

theorem no_input_no_reader:
  "\<not> has_in tokens \<Longrightarrow>
   list_all (\<lambda>m. \<not> sublist m (emit_go tokens)) go_reads \<and>
   list_all (\<lambda>m. \<not> sublist m (emit_cpp tokens)) cpp_reads \<and>
   list_all (\<lambda>m. \<not> sublist m (emit_csharp tokens)) csharp_reads \<and>
   list_all (\<lambda>m. \<not> sublist m (emit_rust tokens)) rust_reads"
  by (simp add: list_all_iff go_clean cpp_clean csharp_clean rust_clean)

theorem no_input_no_reader_witness:
  "\<not> has_in [(''+'', 3), (''.'', 1)] \<and>
   \<not> sublist ''getchar'' (emit_go [(''+'', 3), (''.'', 1)]) \<and>
   \<not> sublist ''cin.get'' (emit_cpp [(''+'', 3), (''.'', 1)]) \<and>
   \<not> sublist ''ReadByte'' (emit_csharp [(''+'', 3), (''.'', 1)]) \<and>
   \<not> sublist ''stdin'' (emit_rust [(''+'', 3), (''.'', 1)])"
proof -
  have h: "\<not> has_in [(''+'', 3), (''.'', 1)]" by (simp add: has_in_def)
  from no_input_no_reader [OF h] h show ?thesis
    by (simp add: go_reads_def cpp_reads_def csharp_reads_def rust_reads_def)
qed




text \<open>
  Claim C1, at the balanced program \<^verbatim>\<open>.[]\<close>. The pipeline yields the tokens
  \<^verbatim>\<open>('.',1) ('[',1) (']',1)\<close>. \<open>emit_python\<close> writes the \<^verbatim>\<open>while\<close> header and nothing for the
  loop end, so the header is followed by a line that is not indented: the loop has no
  body. \<open>emit_cpp\<close> writes a loop with an explicit closing brace.
\<close>

theorem empty_loop_python_and_cpp:
  "fold_runs (sanitize ''.[]'') = Inr [(''.'', 1), (''['', 1), ('']'', 1)] \<and>
   desugar [(''.'', 1), (''['', 1), ('']'', 1)] = Inr [(''.'', 1), (''['', 1), ('']'', 1)] \<and>
   emit_python [(''.'', 1), (''['', 1), ('']'', 1)] =
     join_lines
       [''import sys'',
        ''tape = bytearray(300000)'',
        ''dp = 0'',
        ''out = []'',
        '''',
        ''def getchar():'',
        ''    b = sys.stdin.buffer.read(1)'',
        ''    return b[0] if b else 0'',
        '''',
        ''out.append(tape[dp])'',
        ''while tape[dp] != 0:'',
        ''sys.stdout.buffer.write(bytes(out))'',
        ''''] \<and>
   emit_cpp [(''.'', 1), (''['', 1), ('']'', 1)] =
     join_lines
       [''#include <iostream>'',
        ''int main(){'',
        ''    static unsigned char tape[300000] = {0};'',
        ''    size_t dp = 0;'',
        ''    std::ios::sync_with_stdio(false); std::cin.tie(nullptr);'',
        ''    std::cout.put((char)tape[dp]);'',
        ''    while(tape[dp] != 0){'',
        ''    }'',
        ''    return 0;'',
        ''}'',
        '''']"
  by (simp add: sanitize_def BF_OPS_def fold_runs_eq desugar_eq desugar_spec.simps(2)
      emit_python_def python_head_def emit_cpp_def cpp_head_def emit_simps)

text \<open>
  Two more texts, for the program \<^verbatim>\<open>,,\<close>: \<open>emit_cpp\<close> and \<open>emit_csharp\<close> write the
  declaration of \<^verbatim>\<open>c\<close> once for every input token, here twice in one block.
\<close>

lemma two_inputs_cpp_and_csharp:
  "emit_cpp [('','', 1), ('','', 1)] =
     join_lines
       [''#include <iostream>'',
        ''int main(){'',
        ''    static unsigned char tape[300000] = {0};'',
        ''    size_t dp = 0;'',
        ''    std::ios::sync_with_stdio(false); std::cin.tie(nullptr);'',
        ''    int c = std::cin.get(); tape[dp] = (c==EOF?0:(unsigned char)c);'',
        ''    int c = std::cin.get(); tape[dp] = (c==EOF?0:(unsigned char)c);'',
        ''    return 0;'',
        ''}'',
        ''''] \<and>
   emit_csharp [('','', 1), ('','', 1)] =
     join_lines
       [''using System;'',
        ''using System.IO;'',
        ''class Program { static void Main(){'',
        ''    byte[] tape = new byte[300000]; int dp = 0;'',
        ''    Stream input = Console.OpenStandardInput();'',
        ''    var stdout = Console.OpenStandardOutput();'',
        ''    int c = input.ReadByte(); tape[dp] = (byte)(c==-1?0:c);'',
        ''    int c = input.ReadByte(); tape[dp] = (byte)(c==-1?0:c);'',
        ''}}'',
        '''']"
  by (simp add: emit_cpp_def cpp_head_def emit_csharp_def csharp_head_def emit_simps)

text \<open>
  Claim C3, at a run of 256 increments. The pipeline yields the single token
  \<^verbatim>\<open>('+',256)\<close>. \<open>emit_go\<close> writes the count as the operand of a conversion to \<^verbatim>\<open>byte\<close> and
  \<open>emit_rust\<close> as the argument of \<^verbatim>\<open>u8::wrapping_add\<close>, both unreduced; \<open>emit_python\<close> adds
  the count and masks the sum.
\<close>

theorem wide_count_go_and_rust:
  \<open>fold_runs (sanitize (replicate 256 (CHR ''+''))) = Inr [(''+'', 256)] \<and>
   desugar [(''+'', 256)] = Inr [(''+'', 256)] \<and>
   emit_go [(''+'', 256)] =
     join_lines
       [''package main'',
        '''',
        ''import ('',
        ''    "bufio"'',
        ''    "os"'',
        '')'',
        '''',
        ''func main(){'',
        ''    tape := make([]byte, 300000)'',
        ''    dp := 0'',
        ''    out := bufio.NewWriter(os.Stdout)'',
        ''    defer out.Flush()'',
        ''    tape[dp] = byte(int(tape[dp]+byte(256)) & 255)'',
        ''}'',
        ''''] \<and>
   emit_rust [(''+'', 256)] =
     join_lines
       [''use std::io::{self, Read, Write};'',
        ''fn main(){'',
        ''    let mut tape = [0u8; 300000];'',
        ''    let mut dp: usize = 0;'',
        ''    let mut out = io::BufWriter::new(io::stdout());'',
        ''    tape[dp] = tape[dp].wrapping_add(256);'',
        ''    out.flush().unwrap();'',
        ''}'',
        ''''] \<and>
   emit_python [(''+'', 256)] =
     join_lines
       [''import sys'',
        ''tape = bytearray(300000)'',
        ''dp = 0'',
        ''out = []'',
        '''',
        ''def getchar():'',
        ''    b = sys.stdin.buffer.read(1)'',
        ''    return b[0] if b else 0'',
        '''',
        ''tape[dp] = (tape[dp] + 256) & 255'',
        ''sys.stdout.buffer.write(bytes(out))'',
        '''']\<close>
proof -
  have "replicate 256 (CHR ''+'') = replicate (Suc 255) (CHR ''+'')"
    by simp
  also have "\<dots> = CHR ''+'' # replicate 255 (CHR ''+'')"
    by (rule replicate_Suc)
  finally have r: "replicate 256 (CHR ''+'') = CHR ''+'' # replicate 255 (CHR ''+'')" .
  have "sanitize (replicate 256 (CHR ''+'')) = replicate 256 (CHR ''+'')"
    by (simp add: sanitize_def BF_OPS_def)
  with r have "fold_runs (sanitize (replicate 256 (CHR ''+''))) = Inr [(''+'', 256)]"
    by (simp add: fold_runs_eq fold_runs_spec_run del: fold_runs_spec.simps)
  then show ?thesis
    by (simp add: desugar_eq desugar_spec.simps(2)
        emit_go_def go_head_def emit_rust_def rust_head_def emit_python_def python_head_def
        emit_simps)
qed

end
